theory Spec2Isabelle
  imports Complex_Main "HOL-Library.Log_Nat"
begin

section \<open>Errors\<close>

text \<open>
  The Python exceptions the modelled code can raise. A function that can raise returns
  \<open>error + 'a\<close>, with \<open>Inl\<close> for the exception.
\<close>

datatype error = ValueError | KeyError | TypeError | IndexError | OSError

section \<open>spectral\_indices.py: the sensor catalogue and the constructor\<close>

text \<open>
  A band of the catalogue is a tuple \<open>(low, high)\<close>, or for Sentinel-2 a plain integer:
  \<open>(443)\<close> is the integer 443 in Python, not a tuple.
\<close>

datatype wavelength = Tup int int | Num int

datatype resolution = Centerband | Average

type_synonym band_table = "(string \<times> wavelength) list"

definition sensors :: "(string \<times> band_table) list" where
  "sensors =
    [(''general'',
        [(''blue'', Tup 450 520), (''green'', Tup 521 600), (''red'', Tup 601 690),
         (''nir'', Tup 700 800)]),
     (''landsat-8'',
        [(''aerosol'', Tup 435 451), (''blue'', Tup 452 512), (''green'', Tup 533 590),
         (''red'', Tup 636 673), (''nir'', Tup 851 879), (''swir1'', Tup 1566 1651),
         (''swir2'', Tup 2107 2294), (''cirrus'', Tup 1363 1384)]),
     (''landsat-9'',
        [(''aerosol'', Tup 435 451), (''blue'', Tup 452 512), (''green'', Tup 533 590),
         (''red'', Tup 636 673), (''nir'', Tup 851 879), (''swir1'', Tup 1566 1651),
         (''swir2'', Tup 2107 2294), (''cirrus'', Tup 1363 1384)]),
     (''landsat-7'',
        [(''blue'', Tup 450 515), (''green'', Tup 525 605), (''red'', Tup 630 690),
         (''nir'', Tup 775 900), (''swir1'', Tup 1550 1750), (''swir2'', Tup 2090 2350),
         (''pan'', Tup 520 900)]),
     (''sentinel-2'',
        [(''aerosol'', Num 443), (''blue'', Num 490), (''green'', Num 560), (''red'', Num 665),
         (''red-edge'', Num 705), (''nir'', Num 842), (''nira'', Num 865), (''nir1'', Num 740),
         (''nir2'', Num 783), (''water_vapour'', Num 945), (''cirrus'', Num 1375),
         (''swir1'', Num 1610), (''swir2'', Num 2190)]),
     (''planet'',
        [(''coastal'', Tup 431 452), (''blue'', Tup 465 515), (''green1'', Tup 513 549),
         (''green'', Tup 547 583), (''yellow'', Tup 600 620), (''red'', Tup 650 680),
         (''red-edge'', Tup 697 713), (''nir'', Tup 845 885)])]"

text \<open>\<open>sensors.get(self.sensor, None)\<close>\<close>

definition get_sensor_bands :: "string \<Rightarrow> band_table option" where
  "get_sensor_bands sensor = map_of sensors sensor"

text \<open>
  \<open>int((w[0] + w[1]) / 2)\<close>: the sum is halved as a float and \<open>int\<close> truncates towards
  zero. The float quotient is exact for sums below \<open>2^53\<close> in magnitude, which covers
  every wavelength of the catalogue.
\<close>

definition int_half :: "int \<Rightarrow> int" where
  "int_half s = (if 0 \<le> s then s div 2 else - ((- s) div 2))"

text \<open>
  One entry of the dictionary comprehension of \<open>get_centerband\<close>. Subscripting an integer
  band raises TypeError.
\<close>

fun center_of :: "wavelength \<Rightarrow> error + wavelength" where
  "center_of (Tup lo hi) = Inr (Num (int_half (lo + hi)))"
| "center_of (Num w) = Inl TypeError"

fun center_all :: "band_table \<Rightarrow> error + band_table" where
  "center_all [] = Inr []"
| "center_all ((b, w) # rest) =
     (case center_of w of
        Inl e \<Rightarrow> Inl e
      | Inr c \<Rightarrow> (case center_all rest of Inl e \<Rightarrow> Inl e | Inr cs \<Rightarrow> Inr ((b, c) # cs)))"

text \<open>\<open>not self.bands\<close> holds for \<open>None\<close> and for the empty dictionary.\<close>

definition get_centerband :: "string \<Rightarrow> band_table option \<Rightarrow> error + band_table" where
  "get_centerband sensor bands =
     (case bands of
        None \<Rightarrow> Inl ValueError
      | Some bs \<Rightarrow>
          if bs = [] then Inl ValueError
          else if sensor = ''sentinel-2'' then Inr bs
          else center_all bs)"

record spectral_indices =
  sensor :: string
  method' :: resolution
  bands :: band_table
  centerbands :: band_table

text \<open>
  \<open>SpectralIndices.__init__\<close>. The method is checked first, then the pair
  (sentinel-2, average), then the band table and the centre bands are derived.
\<close>

definition parse_method :: "string \<Rightarrow> resolution option" where
  "parse_method m =
     (if m = ''centerband'' then Some Centerband
      else if m = ''average'' then Some Average
      else None)"

definition init :: "string \<Rightarrow> string \<Rightarrow> error + spectral_indices" where
  "init sensor_name method_name =
     (case parse_method method_name of
        None \<Rightarrow> Inl ValueError
      | Some m \<Rightarrow>
          if sensor_name = ''sentinel-2'' \<and> method_name = ''average'' then Inl ValueError
          else
            (let bs = get_sensor_bands sensor_name in
             case get_centerband sensor_name bs of
               Inl e \<Rightarrow> Inl e
             | Inr cs \<Rightarrow>
                 Inr \<lparr>sensor = sensor_name, method' = m,
                      bands = (case bs of None \<Rightarrow> [] | Some b \<Rightarrow> b),
                      centerbands = cs\<rparr>))"

text \<open>Every wavelength of the catalogue is positive, and only Sentinel-2 has integer bands.\<close>

definition band_ok :: "string \<Rightarrow> wavelength \<Rightarrow> bool" where
  "band_ok s w = (case w of Tup lo hi \<Rightarrow> 0 < lo \<and> lo \<le> hi \<and> s \<noteq> ''sentinel-2''
                  | Num c \<Rightarrow> 0 < c \<and> s = ''sentinel-2'')"

section \<open>spectral\_processing.py: ingestion\<close>

text \<open>
  The file system is a partial map from a path to the lines \<open>readlines()\<close> returns;
  opening a path outside its domain raises FileNotFoundError. \<open>os.path.join\<close> is the
  POSIX one, for two components.
\<close>

type_synonym filesystem = "string \<rightharpoonup> string list"

definition os_path_join :: "string \<Rightarrow> string \<Rightarrow> string" where
  "os_path_join a b =
     (if b \<noteq> [] \<and> hd b = CHR ''/'' then b
      else if a = [] \<or> last a = CHR ''/'' then a @ b
      else a @ ''/'' @ b)"

text \<open>\<open>str.rstrip()\<close> removes the trailing white space; \<open>str.split("\t")\<close> cuts at every tab.\<close>

definition is_space :: "char \<Rightarrow> bool" where
  "is_space c = (c \<in> set [CHR '' '', CHR 0x09, CHR 0x0A, CHR 0x0B, CHR 0x0C, CHR 0x0D,
                            CHR 0x1C, CHR 0x1D, CHR 0x1E, CHR 0x1F, CHR 0x85, CHR 0xA0])"

definition rstrip :: "string \<Rightarrow> string" where
  "rstrip s = rev (dropWhile is_space (rev s))"

fun split_on :: "char \<Rightarrow> string \<Rightarrow> string list" where
  "split_on c [] = [[]]"
| "split_on c (x # xs) =
     (if x = c then [] # split_on c xs
      else (case split_on c xs of [] \<Rightarrow> [[x]] | w # ws \<Rightarrow> (x # w) # ws))"

text \<open>
  \<open>float(textline.rstrip().split("\t")[1])\<close>. The builtin \<open>float\<close> is a parameter,
  \<open>pyfloat\<close>, which returns \<open>None\<close> where the builtin raises ValueError; a line with no
  tab has no field 1 and raises IndexError.
\<close>

definition parse_line :: "(string \<Rightarrow> 'v option) \<Rightarrow> string \<Rightarrow> error + 'v" where
  "parse_line pyfloat textline =
     (case split_on (CHR 0x09) (rstrip textline) of
        _ # field # _ \<Rightarrow> (case pyfloat field of None \<Rightarrow> Inl ValueError | Some v \<Rightarrow> Inr v)
      | _ \<Rightarrow> Inl IndexError)"

text \<open>The inner loop: the first line that fails to parse raises, and ends the call.\<close>

fun parse_lines :: "(string \<Rightarrow> 'v option) \<Rightarrow> string list \<Rightarrow> error + 'v list" where
  "parse_lines pyfloat [] = Inr []"
| "parse_lines pyfloat (l # ls) =
     (case parse_line pyfloat l of
        Inl e \<Rightarrow> Inl e
      | Inr v \<Rightarrow> (case parse_lines pyfloat ls of Inl e \<Rightarrow> Inl e | Inr vs \<Rightarrow> Inr (v # vs)))"

text \<open>
  One file: \<open>None\<close> when it does not exist, else the values of the lines whose index
  \<open>nline\<close> satisfies \<open>nline >= n\<close>, or the exception of the first bad line among them.
\<close>

definition read_file ::
  "filesystem \<Rightarrow> (string \<Rightarrow> 'v option) \<Rightarrow> string \<Rightarrow> int \<Rightarrow> string \<Rightarrow> (error + 'v list) option" where
  "read_file fs pyfloat path n file =
     (case fs (os_path_join path file) of
        None \<Rightarrow> None
      | Some contents \<Rightarrow> Some (parse_lines pyfloat (drop (nat n) contents)))"

text \<open>What \<open>get_data\<close> prints.\<close>

datatype message =
  NotANumber | FileMissing string | NoValidData | LoadedOk | DatasetShape nat nat

text \<open>
  The loop over the files, with the accumulated \<open>data\<close> and the messages printed so far.
  Only FileNotFoundError is caught.
\<close>

fun load ::
  "filesystem \<Rightarrow> (string \<Rightarrow> 'v option) \<Rightarrow> string \<Rightarrow> int \<Rightarrow> string list \<Rightarrow> 'v list \<Rightarrow>
   message list \<Rightarrow> message list \<times> (error + 'v list)" where
  "load fs pyfloat path n [] data out = (out, Inr data)"
| "load fs pyfloat path n (file # files) data out =
     (case read_file fs pyfloat path n file of
        None \<Rightarrow> load fs pyfloat path n files data (out @ [FileMissing (os_path_join path file)])
      | Some (Inl e) \<Rightarrow> (out, Inl e)
      | Some (Inr vs) \<Rightarrow> load fs pyfloat path n files (data @ vs) out)"

text \<open>
  A two-dimensional array, as its shape and its cells in row-major order.
  \<open>np.reshape(data, (r, c))\<close> raises ValueError unless \<open>r * c\<close> is the number of cells.
\<close>

record 'v ndarray =
  shape :: "nat \<times> nat"
  cells :: "'v list"

definition reshape :: "'v list \<Rightarrow> nat \<times> nat \<Rightarrow> error + 'v ndarray" where
  "reshape data sh =
     (if fst sh * snd sh = length data then Inr \<lparr>shape = sh, cells = data\<rparr>
      else Inl ValueError)"

text \<open>
  \<open>get_data\<close>. Its argument \<open>n\<close> is given as the outcome of \<open>int(n)\<close>. The row count
  \<open>int(len(data) / 2151)\<close> is the truncated float quotient, which is \<open>len(data) div 2151\<close>
  for every length a list can have. \<open>round3\<close> stands for rounding a cell to three decimals
  (\<open>ndarray.round(3)\<close>). The result is the printed messages and the value returned:
  \<open>None\<close>, an array, or an exception.
\<close>

definition get_data ::
  "filesystem \<Rightarrow> (string \<Rightarrow> 'v option) \<Rightarrow> ('v \<Rightarrow> 'v) \<Rightarrow> string \<Rightarrow> string list \<Rightarrow> error + int \<Rightarrow>
   message list \<times> (error + 'v ndarray option)" where
  "get_data fs pyfloat round3 path files n_conv =
     (case n_conv of
        Inl e \<Rightarrow> (if e = ValueError then ([NotANumber], Inr None) else ([], Inl e))
      | Inr n \<Rightarrow>
          (case load fs pyfloat path n files [] [] of
             (out, Inl e) \<Rightarrow> (out, Inl e)
           | (out, Inr data) \<Rightarrow>
               if data = [] then (out @ [NoValidData], Inr None)
               else
                 (case reshape data (length data div 2151, 2151) of
                    Inl e \<Rightarrow> (out, Inl e)
                  | Inr a \<Rightarrow>
                      (out @ [LoadedOk, DatasetShape (fst (shape a)) (snd (shape a))],
                       Inr (Some (a\<lparr>cells := map round3 (cells a)\<rparr>))))))"

text \<open>The values a file gives to the batch, and the files that do not exist.\<close>

definition file_values ::
  "filesystem \<Rightarrow> (string \<Rightarrow> 'v option) \<Rightarrow> string \<Rightarrow> int \<Rightarrow> string \<Rightarrow> 'v list" where
  "file_values fs pyfloat path n file =
     (case read_file fs pyfloat path n file of Some (Inr vs) \<Rightarrow> vs | _ \<Rightarrow> [])"

definition is_missing :: "filesystem \<Rightarrow> string \<Rightarrow> string \<Rightarrow> bool" where
  "is_missing fs path file = (fs (os_path_join path file) = None)"

text \<open>A small file system for the examples: a complete file and one a line short.\<close>

definition sed_line :: string where
  "sed_line = ''350'' @ [CHR 0x09] @ ''0.5''"

definition demo_float :: "string \<Rightarrow> rat option" where
  "demo_float s = (if s = ''0.5'' then Some (1 / 2) else None)"

definition demo_fs :: filesystem where
  "demo_fs = [''data/a.sed'' \<mapsto> replicate 27 ''header'' @ replicate 2151 sed_line,
              ''data/b.sed'' \<mapsto> replicate 27 ''header'' @ replicate 2150 sed_line]"

section \<open>Floating-point numbers\<close>

text \<open>
  The cells of a reflectance table are IEEE 754 binary64 numbers. A finite number is a sign
  (\<open>True\<close> for minus) and a magnitude, so that the two zeros are distinct; the magnitude of a
  number that exists in the format is a fixed point of \<open>round_mag\<close> below \<open>2^1024\<close>.
\<close>

datatype f64 = Fin bool rat | Infty bool | NaN

text \<open>The exponent of a positive rational: the largest \<open>e\<close> with \<open>2^e \<le> x\<close>.\<close>

definition floor_log2 :: "rat \<Rightarrow> int" where
  "floor_log2 x =
     (case quotient_of x of (a, b) \<Rightarrow>
        let d = bitlen a - bitlen b
        in if b * 2 ^ nat d \<le> a * 2 ^ nat (- d) then d else d - 1)"

text \<open>Rounding to the nearest integer, ties to the even one.\<close>

definition round_half_even :: "rat \<Rightarrow> int" where
  "round_half_even m =
     (let f = \<lfloor>m\<rfloor>; r = m - of_int f
      in if r < 1 / 2 then f else if 1 / 2 < r then f + 1 else if even f then f else f + 1)"

text \<open>
  Rounding a magnitude to 53 significant bits, with the spacing of the subnormal numbers
  below \<open>2^-1022\<close>; a result of \<open>2^1024\<close> or more is an overflow, which \<open>round_to\<close> turns
  into an infinity.
\<close>

definition round_mag :: "rat \<Rightarrow> rat" where
  "round_mag x =
     (if x \<le> 0 then 0
      else let q = max (floor_log2 x) (- 1022) - 52
           in of_int (round_half_even (x / 2 powi q)) * 2 powi q)"

definition round_to :: "bool \<Rightarrow> rat \<Rightarrow> f64" where
  "round_to s x = (let r = round_mag x in if 2 ^ 1024 \<le> r then Infty s else Fin s r)"



definition signed :: "bool \<Rightarrow> rat \<Rightarrow> rat" where
  "signed s m = (if s then - m else m)"

fun is_f64 :: "f64 \<Rightarrow> bool" where
  "is_f64 (Fin s m) = (0 \<le> m \<and> m < 2 ^ 1024 \<and> round_mag m = m)"
| "is_f64 (Infty s) = True"
| "is_f64 NaN = True"

text \<open>
  The arithmetic of numpy on binary64, in the default rounding mode. No operation raises:
  an invalid operation gives NaN and a division by zero an infinity.
\<close>

fun fneg :: "f64 \<Rightarrow> f64" where
  "fneg (Fin s m) = Fin (\<not> s) m"
| "fneg (Infty s) = Infty (\<not> s)"
| "fneg NaN = NaN"

fun fadd :: "f64 \<Rightarrow> f64 \<Rightarrow> f64" where
  "fadd (Fin s m) (Fin t k) =
     (let v = signed s m + signed t k
      in if v = 0 then Fin (s \<and> t) 0 else round_to (v < 0) \<bar>v\<bar>)"
| "fadd (Fin s m) (Infty t) = Infty t"
| "fadd (Infty s) (Fin t k) = Infty s"
| "fadd (Infty s) (Infty t) = (if s = t then Infty s else NaN)"
| "fadd NaN y = NaN"
| "fadd x NaN = NaN"

definition fsub :: "f64 \<Rightarrow> f64 \<Rightarrow> f64" where
  "fsub x y = fadd x (fneg y)"

fun fmul :: "f64 \<Rightarrow> f64 \<Rightarrow> f64" where
  "fmul (Fin s m) (Fin t k) = round_to (s \<noteq> t) (m * k)"
| "fmul (Fin s m) (Infty t) = (if m = 0 then NaN else Infty (s \<noteq> t))"
| "fmul (Infty s) (Fin t k) = (if k = 0 then NaN else Infty (s \<noteq> t))"
| "fmul (Infty s) (Infty t) = Infty (s \<noteq> t)"
| "fmul NaN y = NaN"
| "fmul x NaN = NaN"

fun fdiv :: "f64 \<Rightarrow> f64 \<Rightarrow> f64" where
  "fdiv (Fin s m) (Fin t k) =
     (if k = 0 then (if m = 0 then NaN else Infty (s \<noteq> t)) else round_to (s \<noteq> t) (m / k))"
| "fdiv (Fin s m) (Infty t) = Fin (s \<noteq> t) 0"
| "fdiv (Infty s) (Fin t k) = Infty (s \<noteq> t)"
| "fdiv (Infty s) (Infty t) = NaN"
| "fdiv NaN y = NaN"
| "fdiv x NaN = NaN"

text \<open>A decimal literal of the source, such as \<open>1e-10\<close>: the nearest binary64 number.\<close>

definition literal :: "rat \<Rightarrow> f64" where
  "literal x = round_to (x < 0) \<bar>x\<bar>"

text \<open>\<open>(nir - red) / (nir + red + 1e-10)\<close>, for one row.\<close>

definition ndvi_value :: "f64 \<Rightarrow> f64 \<Rightarrow> f64" where
  "ndvi_value nir red = fdiv (fsub nir red) (fadd (fadd nir red) (literal (1 / 10 ^ 10)))"

text \<open>A finite number of the format that is not negative; minus zero is one.\<close>

definition nonneg :: "f64 \<Rightarrow> bool" where
  "nonneg x = (case x of Fin s m \<Rightarrow> is_f64 x \<and> (m = 0 \<or> \<not> s) | _ \<Rightarrow> False)"


section \<open>spectral\_indices.py: band resolution\<close>

text \<open>
  A reflectance table: the wavelength labels of the columns, and one list of cells per
  row, as long as the list of labels. The labels are integers and no label occurs twice
  (\<open>range(350, 2501)\<close> in the caller of the repository).
\<close>

record dataframe =
  columns :: "int list"
  rows :: "f64 list list"

text \<open>\<open>df[label]\<close>: the column with that label; KeyError when there is none.\<close>

fun cell_at :: "int \<Rightarrow> int list \<Rightarrow> f64 list \<Rightarrow> f64 option" where
  "cell_at w (c # cs) (v # vs) = (if c = w then Some v else cell_at w cs vs)"
| "cell_at w _ _ = None"

fun column_values :: "int \<Rightarrow> int list \<Rightarrow> f64 list list \<Rightarrow> error + f64 list" where
  "column_values w cs [] = Inr []"
| "column_values w cs (r # rs) =
     (case cell_at w cs r of
        None \<Rightarrow> Inl KeyError
      | Some v \<Rightarrow> (case column_values w cs rs of Inl e \<Rightarrow> Inl e | Inr vs \<Rightarrow> Inr (v # vs)))"

definition getitem :: "dataframe \<Rightarrow> wavelength \<Rightarrow> error + f64 list" where
  "getitem df key =
     (case key of
        Tup lo hi \<Rightarrow> Inl KeyError
      | Num w \<Rightarrow> if w \<in> set (columns df) then column_values w (columns df) (rows df)
                 else Inl KeyError)"

text \<open>\<open>df.loc[:, keep]\<close> on one row: the cells of the columns where the boolean list is true.\<close>

definition select :: "bool list \<Rightarrow> 'a list \<Rightarrow> 'a list" where
  "select keep xs = map snd (filter fst (zip keep xs))"

text \<open>
  \<open>DataFrame.mean(axis=1)\<close> on one row, with the default \<open>skipna=True\<close>: NaN cells are
  replaced by zero in the sum and left out of the count, and a row with no cell to count
  gives NaN. The sum runs from the first cell to the last.
\<close>

fun fsum :: "f64 list \<Rightarrow> f64" where
  "fsum [] = Fin False 0"
| "fsum (x # xs) = foldl fadd x xs"

definition nanmean :: "f64 list \<Rightarrow> f64" where
  "nanmean xs =
     (let count = length (filter (\<lambda>v. v \<noteq> NaN) xs);
          the_sum = fsum (map (\<lambda>v. if v = NaN then Fin False 0 else v) xs)
      in if count = 0 then NaN else fdiv the_sum (round_to False (of_nat count)))"

text \<open>
  \<open>_get_band_values\<close>. A missing band name raises KeyError; subscripting an integer band
  raises TypeError.
\<close>

definition get_band_values :: "spectral_indices \<Rightarrow> dataframe \<Rightarrow> string \<Rightarrow> error + f64 list" where
  "get_band_values self df band_name =
     (case method' self of
        Centerband \<Rightarrow>
          (case map_of (centerbands self) band_name of
             None \<Rightarrow> Inl KeyError
           | Some key \<Rightarrow> getitem df key)
      | Average \<Rightarrow>
          (case map_of (bands self) band_name of
             None \<Rightarrow> Inl KeyError
           | Some (Num w) \<Rightarrow> Inl TypeError
           | Some (Tup lo hi) \<Rightarrow>
               Inr (map (\<lambda>row. nanmean (select (map (\<lambda>c. lo \<le> c \<and> c \<le> hi) (columns df)) row))
                        (rows df))))"

text \<open>The arithmetic mean of a list of numbers: their sum, divided by how many they are.\<close>

definition arithmetic_mean :: "f64 list \<Rightarrow> f64" where
  "arithmetic_mean xs = fdiv (fsum xs) (round_to False (of_nat (length xs)))"

text \<open>The cells of a row whose label lies in the closed interval, with their labels.\<close>

definition in_range :: "int \<Rightarrow> int \<Rightarrow> int list \<Rightarrow> f64 list \<Rightarrow> (int \<times> f64) list" where
  "in_range lo hi cs row = filter (\<lambda>(c, v). lo \<le> c \<and> c \<le> hi) (zip cs row)"


section \<open>spectral\_indices.py: the indices\<close>

text \<open>
  \<open>np.sqrt\<close>: the correctly rounded root, NaN for a negative number. \<open>isqrt\<close> is the
  integer square root.
\<close>

function isqrt :: "int \<Rightarrow> int" where
  "isqrt n =
     (if n < 2 then max n 0
      else let r = 2 * isqrt (n div 4) in if (r + 1) * (r + 1) \<le> n then r + 1 else r)"
  by pat_completeness auto
termination
  by (relation "measure nat") auto

definition sqrt_mag :: "rat \<Rightarrow> rat" where
  "sqrt_mag m =
     (let q = floor_log2 m div 2 - 52;
          t = m / 2 powi (2 * q);
          f = isqrt \<lfloor>t\<rfloor>;
          h = (of_int f + 1 / 2) * (of_int f + 1 / 2);
          n = (if t < h then f else if h < t then f + 1 else if even f then f else f + 1)
      in of_int n * 2 powi q)"

fun fsqrt :: "f64 \<Rightarrow> f64" where
  "fsqrt (Fin s m) =
     (if m = 0 then Fin s 0 else if s then NaN else round_to False (sqrt_mag m))"
| "fsqrt (Infty s) = (if s then NaN else Infty False)"
| "fsqrt NaN = NaN"


text \<open>
  The formulas of \<open>msavi\<close>, \<open>gci\<close>, \<open>evi\<close> and \<open>savi\<close> for one row. The integer constants
  of the source are converted to binary64, and \<open>x ** 2\<close> is \<open>x * x\<close>.
\<close>

definition msavi_value :: "f64 \<Rightarrow> f64 \<Rightarrow> f64" where
  "msavi_value nir red =
     fdiv (fsub (fadd (fmul (literal 2) nir) (literal 1))
                (fsqrt (fsub (fmul (fadd (fmul (literal 2) nir) (literal 1))
                                   (fadd (fmul (literal 2) nir) (literal 1)))
                             (fmul (literal 8) (fsub nir red)))))
          (literal 2)"

definition gci_value :: "f64 \<Rightarrow> f64 \<Rightarrow> f64" where
  "gci_value nir green = fsub (fdiv nir green) (literal 1)"

definition evi_value :: "f64 \<Rightarrow> f64 \<Rightarrow> f64 \<Rightarrow> f64 \<Rightarrow> f64 \<Rightarrow> f64 \<Rightarrow> f64 \<Rightarrow> f64" where
  "evi_value L C1 C2 G nir red blue =
     fmul G (fdiv (fsub nir red)
                  (fadd (fadd (fsub (fadd nir (fmul C1 red)) (fmul C2 blue)) L)
                        (literal (1 / 10 ^ 10))))"

definition savi_value :: "f64 \<Rightarrow> f64 \<Rightarrow> f64 \<Rightarrow> f64" where
  "savi_value L nir red =
     fmul (fdiv (fsub nir red) (fadd (fadd (fadd nir red) L) (literal (1 / 10 ^ 10))))
          (fadd (literal 1) L)"

text \<open>
  The index methods: the bands are resolved, the first failure is raised, and the formula
  is applied row by row.
\<close>

definition ndvi :: "spectral_indices \<Rightarrow> dataframe \<Rightarrow> string \<Rightarrow> error + f64 list" where
  "ndvi self df nir_name =
     (case get_band_values self df nir_name of
        Inl e \<Rightarrow> Inl e
      | Inr nir \<Rightarrow>
          (case get_band_values self df ''red'' of
             Inl e \<Rightarrow> Inl e
           | Inr red \<Rightarrow> Inr (map2 ndvi_value nir red)))"

definition evi ::
  "spectral_indices \<Rightarrow> dataframe \<Rightarrow> f64 \<Rightarrow> f64 \<Rightarrow> f64 \<Rightarrow> f64 \<Rightarrow> error + f64 list" where
  "evi self df L C1 C2 G =
     (case get_band_values self df ''nir'' of
        Inl e \<Rightarrow> Inl e
      | Inr nir \<Rightarrow>
          (case get_band_values self df ''red'' of
             Inl e \<Rightarrow> Inl e
           | Inr red \<Rightarrow>
               (case get_band_values self df ''blue'' of
                  Inl e \<Rightarrow> Inl e
                | Inr blue \<Rightarrow>
                    Inr (map (\<lambda>(n, r, b). evi_value L C1 C2 G n r b) (zip nir (zip red blue))))))"

definition savi :: "spectral_indices \<Rightarrow> dataframe \<Rightarrow> f64 \<Rightarrow> error + f64 list" where
  "savi self df L =
     (case get_band_values self df ''nir'' of
        Inl e \<Rightarrow> Inl e
      | Inr nir \<Rightarrow>
          (case get_band_values self df ''red'' of
             Inl e \<Rightarrow> Inl e
           | Inr red \<Rightarrow> Inr (map2 (savi_value L) nir red)))"

definition msavi :: "spectral_indices \<Rightarrow> dataframe \<Rightarrow> error + f64 list" where
  "msavi self df =
     (case get_band_values self df ''nir'' of
        Inl e \<Rightarrow> Inl e
      | Inr nir \<Rightarrow>
          (case get_band_values self df ''red'' of
             Inl e \<Rightarrow> Inl e
           | Inr red \<Rightarrow> Inr (map2 msavi_value nir red)))"

definition gci :: "spectral_indices \<Rightarrow> dataframe \<Rightarrow> error + f64 list" where
  "gci self df =
     (case get_band_values self df ''nir'' of
        Inl e \<Rightarrow> Inl e
      | Inr nir \<Rightarrow>
          (case get_band_values self df ''green'' of
             Inl e \<Rightarrow> Inl e
           | Inr green \<Rightarrow> Inr (map2 gci_value nir green)))"

text \<open>The radicand of MSAVI as the source computes it, and the numbers below zero.\<close>

definition radicand :: "f64 \<Rightarrow> f64 \<Rightarrow> f64" where
  "radicand nir red =
     fsub (fmul (fadd (fmul (literal 2) nir) (literal 1)) (fadd (fmul (literal 2) nir) (literal 1)))
          (fmul (literal 8) (fsub nir red))"

definition is_negative :: "f64 \<Rightarrow> bool" where
  "is_negative x = (case x of Fin s m \<Rightarrow> s \<and> 0 < m | Infty s \<Rightarrow> s | NaN \<Rightarrow> False)"

text \<open>An engine and a table with one row, for the examples.\<close>

definition general_average :: spectral_indices where
  "general_average =
     \<lparr>sensor = ''general'', method' = Average,
      bands = [(''blue'', Tup 450 520), (''green'', Tup 521 600), (''red'', Tup 601 690),
               (''nir'', Tup 700 800)],
      centerbands = [(''blue'', Num 485), (''green'', Num 560), (''red'', Num 645),
                     (''nir'', Num 750)]\<rparr>"

definition demo_df :: dataframe where
  "demo_df = \<lparr>columns = [600, 601, 690, 691],
              rows = [[Fin False 1, Fin False 2, Fin False 4, Fin False 8]]\<rparr>"

definition nan_df :: dataframe where
  "nan_df = \<lparr>columns = [600, 601, 690, 691],
             rows = [[Fin False 1, NaN, Fin False 4, Fin False 8]]\<rparr>"


section \<open>Properties of the constructor\<close>

lemma center_all_keys: "center_all bs = Inr cs \<Longrightarrow> map fst cs = map fst bs"
  by (induction bs arbitrary: cs) (auto split: sum.splits)

lemma center_all_lookup:
  "center_all bs = Inr cs \<Longrightarrow> map_of bs b = Some (Tup lo hi) \<Longrightarrow>
   map_of cs b = Some (Num (int_half (lo + hi)))"
proof (induction bs arbitrary: cs)
  case Nil
  then show ?case by simp
next
  case (Cons p bs)
  obtain k w where p: "p = (k, w)" by (cases p)
  from Cons.prems(1) p obtain c cs' where
    c: "center_of w = Inr c" and cs': "center_all bs = Inr cs'" and cs: "cs = (k, c) # cs'"
    by (auto split: sum.splits)
  show ?case
  proof (cases "b = k")
    case True
    with Cons.prems(2) p have "w = Tup lo hi" by simp
    with c cs True show ?thesis by auto
  next
    case False
    with Cons.prems(2) p have "map_of bs b = Some (Tup lo hi)" by simp
    from Cons.IH [OF cs' this] cs False show ?thesis by simp
  qed
qed

lemma center_all_Tup:
  "center_all bs = Inr cs \<Longrightarrow> (b, w) \<in> set bs \<Longrightarrow> \<exists>lo hi. w = Tup lo hi"
proof (induction bs arbitrary: cs)
  case Nil
  then show ?case by simp
next
  case (Cons p bs)
  obtain k v where p: "p = (k, v)" by (cases p)
  from Cons.prems(1) p obtain c cs' where
    c: "center_of v = Inr c" and cs': "center_all bs = Inr cs'"
    by (auto split: sum.splits)
  from c have v: "\<exists>lo hi. v = Tup lo hi" by (cases v) auto
  from Cons.prems(2) p have "(b, w) = (k, v) \<or> (b, w) \<in> set bs" by auto
  then show ?case using v Cons.IH [OF cs'] by auto
qed

lemma catalogue_ok: "list_all (\<lambda>(s, bs). bs \<noteq> [] \<and> list_all (\<lambda>(b, w). band_ok s w) bs) sensors"
  by (simp add: sensors_def band_ok_def)

lemma get_sensor_bands_ok:
  assumes "get_sensor_bands s = Some bs" and "(b, w) \<in> set bs"
  shows "band_ok s w"
proof -
  from assms(1) have "(s, bs) \<in> set sensors"
    by (auto simp: get_sensor_bands_def dest: map_of_SomeD)
  with catalogue_ok have "list_all (\<lambda>(b, w). band_ok s w) bs"
    by (auto simp: list_all_iff)
  with assms(2) show ?thesis by (auto simp: list_all_iff)
qed

lemma init_InrD:
  assumes "init s m = Inr obj"
  shows "\<exists>bs. get_sensor_bands s = Some bs \<and> bs \<noteq> [] \<and> bands obj = bs \<and> sensor obj = s \<and>
     parse_method m = Some (method' obj) \<and>
     (if s = ''sentinel-2'' then centerbands obj = bs \<and> m = ''centerband''
      else center_all bs = Inr (centerbands obj))"
  using assms
  by (auto simp: init_def get_centerband_def parse_method_def Let_def
           split: option.splits sum.splits if_splits)

lemma int_half_floor: "0 \<le> s \<Longrightarrow> int_half s = \<lfloor>rat_of_int s / 2\<rfloor>"
  using floor_divide_of_int_eq [of s 2, where ?'a = rat] by (simp add: int_half_def)

lemma init_centerbands:
  assumes "init s m = Inr obj"
  shows "map fst (centerbands obj) = map fst (bands obj) \<and>
    (s \<noteq> ''sentinel-2'' \<longrightarrow>
       (map_of (bands obj) b = Some (Tup lo hi) \<longrightarrow>
          map_of (centerbands obj) b = Some (Num \<lfloor>(rat_of_int lo + rat_of_int hi) / 2\<rfloor>)) \<and>
       map_of (bands obj) b \<noteq> Some (Num c)) \<and>
    (s = ''sentinel-2'' \<longrightarrow>
       (map_of (bands obj) b = Some w \<longrightarrow>
          (\<exists>d. w = Num d) \<and> map_of (centerbands obj) b = Some w))"
proof -
  from init_InrD [OF assms] obtain bs where
    bs: "get_sensor_bands s = Some bs" and b: "bands obj = bs" and
    cs: "if s = ''sentinel-2'' then centerbands obj = bs \<and> m = ''centerband''
         else center_all bs = Inr (centerbands obj)"
    by blast
  have keys: "map fst (centerbands obj) = map fst (bands obj)"
    using cs b by (auto simp: center_all_keys split: if_splits)
  have other: "map_of (centerbands obj) b = Some (Num \<lfloor>(rat_of_int lo + rat_of_int hi) / 2\<rfloor>)"
    if "s \<noteq> ''sentinel-2''" and look: "map_of (bands obj) b = Some (Tup lo hi)"
  proof -
    from that cs have ca: "center_all bs = Inr (centerbands obj)" by simp
    from look b have "(b, Tup lo hi) \<in> set bs" by (auto dest: map_of_SomeD)
    from get_sensor_bands_ok [OF bs this] have "0 \<le> lo + hi" by (simp add: band_ok_def)
    then have "int_half (lo + hi) = \<lfloor>(rat_of_int lo + rat_of_int hi) / 2\<rfloor>"
      using int_half_floor [of "lo + hi"] by simp
    with center_all_lookup [OF ca] look b show ?thesis by simp
  qed
  have no_num: "map_of (bands obj) b \<noteq> Some (Num c)" if "s \<noteq> ''sentinel-2''"
  proof
    assume "map_of (bands obj) b = Some (Num c)"
    with b have "(b, Num c) \<in> set bs" by (auto dest: map_of_SomeD)
    from get_sensor_bands_ok [OF bs this] that show False by (simp add: band_ok_def)
  qed
  have s2: "(\<exists>d. w = Num d) \<and> map_of (centerbands obj) b = Some w"
    if "s = ''sentinel-2''" and look: "map_of (bands obj) b = Some w"
  proof -
    from look b have "(b, w) \<in> set bs" by (auto dest: map_of_SomeD)
    from get_sensor_bands_ok [OF bs this] that have "\<exists>d. w = Num d"
      by (cases w) (simp_all add: band_ok_def)
    moreover from that cs b have "map_of (centerbands obj) b = Some w" by simp
    ultimately show ?thesis by simp
  qed
  from keys other no_num s2 show ?thesis by blast
qed

lemma center_all_total:
  "\<forall>(b, w) \<in> set bs. \<exists>lo hi. w = Tup lo hi \<Longrightarrow> \<exists>cs. center_all bs = Inr cs"
proof (induction bs)
  case Nil
  then show ?case by simp
next
  case (Cons p bs)
  obtain k w where p: "p = (k, w)" by (cases p)
  from Cons.prems p obtain lo hi where w: "w = Tup lo hi" by auto
  from Cons.prems have "\<forall>(b, w) \<in> set bs. \<exists>lo hi. w = Tup lo hi" by simp
  from Cons.IH [OF this] obtain cs where "center_all bs = Inr cs" by blast
  with p w show ?case by simp
qed

lemma init_succeeds:
  assumes "get_sensor_bands s = Some bs"
    and "m = ''centerband'' \<or> (m = ''average'' \<and> s \<noteq> ''sentinel-2'')"
  shows "\<exists>obj. init s m = Inr obj \<and> bands obj = bs"
proof -
  from assms(1) have "(s, bs) \<in> set sensors"
    by (auto simp: get_sensor_bands_def dest: map_of_SomeD)
  with catalogue_ok have ne: "bs \<noteq> []" by (auto simp: list_all_iff)
  from assms(2) obtain r where r: "parse_method m = Some r" by (auto simp: parse_method_def)
  from assms(2) have ok: "\<not> (s = ''sentinel-2'' \<and> m = ''average'')" by auto
  have "\<exists>cs. get_centerband s (Some bs) = Inr cs"
  proof (cases "s = ''sentinel-2''")
    case True
    with ne show ?thesis by (simp add: get_centerband_def)
  next
    case False
    have "\<forall>(b, w) \<in> set bs. \<exists>lo hi. w = Tup lo hi"
    proof (clarify)
      fix b w assume "(b, w) \<in> set bs"
      from get_sensor_bands_ok [OF assms(1) this] False show "\<exists>lo hi. w = Tup lo hi"
        by (cases w) (simp_all add: band_ok_def)
    qed
    from center_all_total [OF this] False ne show ?thesis by (simp add: get_centerband_def)
  qed
  then obtain cs where "get_centerband s (Some bs) = Inr cs" by blast
  with r ok assms(1) show ?thesis by (simp add: init_def Let_def)
qed

text \<open>
  Claim C2. For every sensor of the catalogue and every policy the constructor accepts
  for it, construction succeeds, the object holds the band table of the catalogue, and
  its centre-band map has exactly the keys of that table. For a sensor other than
  Sentinel-2 every band is an interval \<open>(lo, hi)\<close> and its entry is
  \<open>floor ((lo + hi) / 2)\<close>; for Sentinel-2 every band is a single wavelength and its entry
  is that wavelength, unchanged.
\<close>

theorem centerband_map:
  assumes "get_sensor_bands s = Some bs"
    and "m = ''centerband'' \<or> (m = ''average'' \<and> s \<noteq> ''sentinel-2'')"
  shows "\<exists>obj. init s m = Inr obj \<and> bands obj = bs \<and>
    map fst (centerbands obj) = map fst bs \<and>
    (s \<noteq> ''sentinel-2'' \<longrightarrow>
       (map_of bs b = Some (Tup lo hi) \<longrightarrow>
          map_of (centerbands obj) b = Some (Num \<lfloor>(rat_of_int lo + rat_of_int hi) / 2\<rfloor>)) \<and>
       map_of bs b \<noteq> Some (Num c)) \<and>
    (s = ''sentinel-2'' \<longrightarrow>
       (map_of bs b = Some w \<longrightarrow>
          (\<exists>d. w = Num d) \<and> map_of (centerbands obj) b = Some w))"
proof -
  from init_succeeds [OF assms] obtain obj where
    i: "init s m = Inr obj" and b: "bands obj = bs" by blast
  from init_centerbands [OF i, of b lo hi c w] i b show ?thesis by auto
qed

theorem centerband_map_witness:
  "(\<exists>obj. init ''general'' ''average'' = Inr obj \<and>
      map fst (centerbands obj) = [''blue'', ''green'', ''red'', ''nir''] \<and>
      map_of (centerbands obj) ''red'' = Some (Num 645)) \<and>
   (\<exists>obj. init ''sentinel-2'' ''centerband'' = Inr obj \<and>
      map_of (centerbands obj) ''nir'' = Some (Num 842))"
proof -
  have g: "get_sensor_bands ''general'' =
      Some [(''blue'', Tup 450 520), (''green'', Tup 521 600), (''red'', Tup 601 690),
            (''nir'', Tup 700 800)]"
    by (simp add: get_sensor_bands_def sensors_def)
  have f: "\<lfloor>(rat_of_int 601 + rat_of_int 690) / 2\<rfloor> = 645"
    by (simp add: floor_eq_iff)
  from centerband_map [OF g, of "''average''" "''red''" 601 690] f
  have 1: "\<exists>obj. init ''general'' ''average'' = Inr obj \<and>
      map fst (centerbands obj) = [''blue'', ''green'', ''red'', ''nir''] \<and>
      map_of (centerbands obj) ''red'' = Some (Num 645)"
    by auto
  have s2: "get_sensor_bands ''sentinel-2'' =
      Some [(''aerosol'', Num 443), (''blue'', Num 490), (''green'', Num 560), (''red'', Num 665),
            (''red-edge'', Num 705), (''nir'', Num 842), (''nira'', Num 865), (''nir1'', Num 740),
            (''nir2'', Num 783), (''water_vapour'', Num 945), (''cirrus'', Num 1375),
            (''swir1'', Num 1610), (''swir2'', Num 2190)]"
    by (simp add: get_sensor_bands_def sensors_def)
  from centerband_map [OF s2, of "''centerband''" "''nir''" _ _ _ "Num 842"]
  have 2: "\<exists>obj. init ''sentinel-2'' ''centerband'' = Inr obj \<and>
      map_of (centerbands obj) ''nir'' = Some (Num 842)"
    by auto
  from 1 2 show ?thesis ..
qed

text \<open>
  Claim C3. The constructor raises for the pair (sentinel-2, average), and for every
  method name other than \<open>centerband\<close> and \<open>average\<close>, whatever the sensor: no object is
  built, so no band is resolved and no formula evaluated.
\<close>

theorem init_rejects:
  "init ''sentinel-2'' ''average'' = Inl ValueError \<and>
   (m \<noteq> ''centerband'' \<and> m \<noteq> ''average'' \<longrightarrow> init s m = Inl ValueError)"
  by (simp add: init_def parse_method_def)

theorem init_rejects_witness: "init ''general'' ''median'' = Inl ValueError"
  using init_rejects [of "''median''" "''general''"] by simp

section \<open>Properties of ingestion\<close>

lemma read_file_None: "read_file fs pf p n f = None \<longleftrightarrow> is_missing fs p f"
  by (simp add: read_file_def is_missing_def split: option.splits)

lemma load_Inr:
  "load fs pf p n files data out = (out', Inr data') \<Longrightarrow>
     out' = out @ map (\<lambda>f. FileMissing (os_path_join p f)) (filter (is_missing fs p) files) \<and>
     data' = data @ concat (map (file_values fs pf p n) files)"
proof (induction files arbitrary: data out)
  case Nil
  then show ?case by simp
next
  case (Cons f files)
  show ?case
  proof (cases "read_file fs pf p n f")
    case None
    with Cons.prems have
      "load fs pf p n files data (out @ [FileMissing (os_path_join p f)]) = (out', Inr data')"
      by simp
    moreover from None have "file_values fs pf p n f = []" by (simp add: file_values_def)
    moreover from None have "is_missing fs p f" using read_file_None [of fs pf p n f] by simp
    ultimately show ?thesis using Cons.IH by fastforce
  next
    case (Some r)
    show ?thesis
    proof (cases r)
      case (Inl e)
      with Some Cons.prems show ?thesis by simp
    next
      case (Inr vs)
      with Some Cons.prems have "load fs pf p n files (data @ vs) out = (out', Inr data')"
        by simp
      moreover from Some Inr have "file_values fs pf p n f = vs" by (simp add: file_values_def)
      moreover from Some have "\<not> is_missing fs p f"
        using read_file_None [of fs pf p n f] by simp
      ultimately show ?thesis using Cons.IH by fastforce
    qed
  qed
qed

lemma load_total:
  "\<forall>f \<in> set files. \<forall>e. read_file fs pf p n f \<noteq> Some (Inl e) \<Longrightarrow>
   \<exists>out' data'. load fs pf p n files data out = (out', Inr data')"
proof (induction files arbitrary: data out)
  case Nil
  then show ?case by simp
next
  case (Cons f files)
  then show ?case
    by (cases "read_file fs pf p n f") (auto split: sum.splits)
qed

lemma load_skip_missing:
  "snd (load fs pf p n files data out) =
   snd (load fs pf p n (filter (\<lambda>f. \<not> is_missing fs p f) files) data out2)"
proof (induction files arbitrary: data out out2)
  case Nil
  then show ?case by simp
next
  case (Cons f files)
  show ?case
  proof (cases "read_file fs pf p n f")
    case None
    then have "is_missing fs p f" by (simp add: read_file_None)
    with None Cons.IH show ?thesis by simp
  next
    case (Some r)
    then have "\<not> is_missing fs p f" using read_file_None [of fs pf p n f] by simp
    with Some Cons.IH show ?thesis by (cases r) simp_all
  qed
qed

lemma parse_lines_replicate:
  "parse_line pf l = Inr v \<Longrightarrow> parse_lines pf (replicate k l) = Inr (replicate k v)"
  by (induction k) simp_all


lemma parse_sed_line: "parse_line demo_float sed_line = Inr (1 / 2)"
  by (simp add: parse_line_def rstrip_def is_space_def sed_line_def demo_float_def)

lemma read_a: "read_file demo_fs demo_float ''data'' 27 ''a.sed'' = Some (Inr (replicate 2151 (1 / 2)))"
  by (simp add: read_file_def os_path_join_def demo_fs_def parse_lines_replicate [OF parse_sed_line])

lemma read_b: "read_file demo_fs demo_float ''data'' 27 ''b.sed'' = Some (Inr (replicate 2150 (1 / 2)))"
  by (simp add: read_file_def os_path_join_def demo_fs_def parse_lines_replicate [OF parse_sed_line])

lemma read_gone: "read_file demo_fs demo_float ''data'' 27 ''gone.sed'' = None"
  by (simp add: read_file_def os_path_join_def demo_fs_def)

lemma load_b: "load demo_fs demo_float ''data'' 27 [''b.sed''] [] [] = ([], Inr (replicate 2150 (1 / 2)))"
  by (simp add: read_b)

lemma get_a: "get_data demo_fs demo_float id ''data'' [''a.sed''] (Inr 27) =
  ([LoadedOk, DatasetShape 1 2151], Inr (Some \<lparr>shape = (1, 2151), cells = replicate 2151 (1 / 2)\<rparr>))"
  by (simp add: get_data_def read_a reshape_def)

lemma get_gone_a: "get_data demo_fs demo_float id ''data'' [''gone.sed'', ''a.sed''] (Inr 27) =
  ([FileMissing ''data/gone.sed'', LoadedOk, DatasetShape 1 2151],
   Inr (Some \<lparr>shape = (1, 2151), cells = replicate 2151 (1 / 2)\<rparr>))"
  by (simp add: get_data_def read_a read_gone reshape_def os_path_join_def)


lemma file_values_missing: "is_missing fs p f \<Longrightarrow> file_values fs pf p n f = []"
  by (simp add: file_values_def read_file_def is_missing_def)

lemma length_concat_const:
  "\<forall>x \<in> set xs. length (f x) = k \<Longrightarrow> length (concat (map f xs)) = length xs * k"
  by (induction xs) simp_all

text \<open>
  Claim C5, amended. For a non-empty list of files that all exist and each give exactly
  2151 values, \<open>get_data\<close> returns an array with one row per file and 2151 columns. When
  the values of the batch are more than none and not a multiple of 2151, it raises the
  ValueError of \<open>np.reshape\<close>.
\<close>

theorem get_data_shape:
  "(files \<noteq> [] \<and>
    (\<forall>f \<in> set files. \<exists>vs. read_file fs pf p n f = Some (Inr vs) \<and> length vs = 2151) \<longrightarrow>
      (\<exists>a. snd (get_data fs pf r3 p files (Inr n)) = Inr (Some a) \<and>
           shape a = (length files, 2151) \<and> length (cells a) = length files * 2151)) \<and>
   (load fs pf p n files [] [] = (out, Inr data) \<and> 0 < length data \<and> \<not> 2151 dvd length data \<longrightarrow>
      snd (get_data fs pf r3 p files (Inr n)) = Inl ValueError)"
proof (intro conjI impI)
  assume a: "files \<noteq> [] \<and>
    (\<forall>f \<in> set files. \<exists>vs. read_file fs pf p n f = Some (Inr vs) \<and> length vs = 2151)"
  then have "\<forall>f \<in> set files. \<forall>e. read_file fs pf p n f \<noteq> Some (Inl e)" by fastforce
  from load_total [OF this] obtain out' data' where
    l: "load fs pf p n files [] [] = (out', Inr data')" by blast
  from load_Inr [OF l] have d: "data' = concat (map (file_values fs pf p n) files)" by simp
  from a have "\<forall>f \<in> set files. length (file_values fs pf p n f) = 2151"
    by (fastforce simp: file_values_def)
  from length_concat_const [OF this] d have len: "length data' = length files * 2151" by simp
  with a have "data' \<noteq> []" by auto
  with l len show "\<exists>a. snd (get_data fs pf r3 p files (Inr n)) = Inr (Some a) \<and>
      shape a = (length files, 2151) \<and> length (cells a) = length files * 2151"
    by (simp add: get_data_def reshape_def)
next
  assume "load fs pf p n files [] [] = (out, Inr data) \<and> 0 < length data \<and>
    \<not> 2151 dvd length data"
  then have l: "load fs pf p n files [] [] = (out, Inr data)" and ne: "data \<noteq> []"
    and nd: "\<not> 2151 dvd length data" by auto
  from nd have "length data div 2151 * 2151 \<noteq> length data"
    by (metis dvd_triv_right)
  with l ne show "snd (get_data fs pf r3 p files (Inr n)) = Inl ValueError"
    by (simp add: get_data_def reshape_def)
qed

theorem get_data_shape_witness:
  "(\<exists>a. snd (get_data demo_fs demo_float id ''data'' [''a.sed''] (Inr 27)) = Inr (Some a) \<and>
        shape a = (1, 2151) \<and> length (cells a) = 2151) \<and>
   snd (get_data demo_fs demo_float id ''data'' [''b.sed''] (Inr 27)) = Inl ValueError"
proof -
  have h1: "[''a.sed''] \<noteq> [] \<and>
    (\<forall>f \<in> set [''a.sed'']. \<exists>vs. read_file demo_fs demo_float ''data'' 27 f = Some (Inr vs) \<and>
        length vs = 2151)"
    by (simp add: read_a)
  have h2: "load demo_fs demo_float ''data'' 27 [''b.sed''] [] [] = ([], Inr (replicate 2150 (1 / 2))) \<and>
    0 < length (replicate 2150 (1 / 2 :: rat)) \<and> \<not> 2151 dvd length (replicate 2150 (1 / 2 :: rat))"
    by (simp add: read_b)
  from get_data_shape [of "[''a.sed'']" demo_fs demo_float "''data''" 27 id] h1
  have "\<exists>a. snd (get_data demo_fs demo_float id ''data'' [''a.sed''] (Inr 27)) = Inr (Some a) \<and>
        shape a = (1, 2151) \<and> length (cells a) = 2151"
    by simp
  moreover from get_data_shape [of "[''b.sed'']" demo_fs demo_float "''data''" 27 id "[]"
      "replicate 2150 (1 / 2)"] h2
  have "snd (get_data demo_fs demo_float id ''data'' [''b.sed''] (Inr 27)) = Inl ValueError"
    by blast
  ultimately show ?thesis by simp
qed

text \<open>
  Claim C5 as stated also covers the empty list of files, where every file of the list
  gives 2151 values and the call returns \<open>None\<close>, not an array with no row.
\<close>

theorem get_data_empty_list_counterexample:
  "\<not> (\<forall>files.
        (\<forall>f \<in> set files. \<exists>vs. read_file demo_fs demo_float ''data'' 27 f = Some (Inr vs) \<and>
            length vs = 2151) \<longrightarrow>
        (\<exists>a. snd (get_data demo_fs demo_float id ''data'' files (Inr 27)) = Inr (Some a) \<and>
             shape a = (length files, 2151)))"
proof
  assume "\<forall>files.
        (\<forall>f \<in> set files. \<exists>vs. read_file demo_fs demo_float ''data'' 27 f = Some (Inr vs) \<and>
            length vs = 2151) \<longrightarrow>
        (\<exists>a. snd (get_data demo_fs demo_float id ''data'' files (Inr 27)) = Inr (Some a) \<and>
             shape a = (length files, 2151))"
  from spec [OF this, of "[]"]
  have "\<exists>a. snd (get_data demo_fs demo_float id ''data'' [] (Inr 27)) = Inr (Some a) \<and>
             shape a = (length ([] :: string list), 2151)"
    by simp
  then show False by (simp add: get_data_def)
qed

text \<open>
  Claim C10. When the batch gives no value at all, \<open>get_data\<close> prints that no valid data
  was found and returns \<open>None\<close>: so it does when every file is missing or has no data
  line, and for the empty list of files. It neither reshapes nor raises.
\<close>

theorem get_data_no_data:
  "(load fs pf p n files [] [] = (out, Inr []) \<longrightarrow>
      get_data fs pf r3 p files (Inr n) = (out @ [NoValidData], Inr None)) \<and>
   ((\<forall>f \<in> set files. read_file fs pf p n f = None \<or> read_file fs pf p n f = Some (Inr [])) \<longrightarrow>
      snd (get_data fs pf r3 p files (Inr n)) = Inr None) \<and>
   get_data fs pf r3 p [] (Inr n) = ([NoValidData], Inr None)"
proof (intro conjI impI)
  assume "load fs pf p n files [] [] = (out, Inr [])"
  then show "get_data fs pf r3 p files (Inr n) = (out @ [NoValidData], Inr None)"
    by (simp add: get_data_def)
next
  assume a: "\<forall>f \<in> set files. read_file fs pf p n f = None \<or> read_file fs pf p n f = Some (Inr [])"
  then have "\<forall>f \<in> set files. \<forall>e. read_file fs pf p n f \<noteq> Some (Inl e)" by fastforce
  from load_total [OF this] obtain out' data' where
    l: "load fs pf p n files [] [] = (out', Inr data')" by blast
  from a have "\<forall>f \<in> set files. file_values fs pf p n f = []"
    by (fastforce simp: file_values_def)
  with load_Inr [OF l] have "data' = []" by simp
  with l show "snd (get_data fs pf r3 p files (Inr n)) = Inr None"
    by (simp add: get_data_def)
next
  show "get_data fs pf r3 p [] (Inr n) = ([NoValidData], Inr None)"
    by (simp add: get_data_def)
qed

theorem get_data_no_data_witness:
  "get_data demo_fs demo_float id ''data'' [''gone.sed''] (Inr 27) =
     ([FileMissing ''data/gone.sed'', NoValidData], Inr None) \<and>
   snd (get_data demo_fs demo_float id ''data'' [''gone.sed'', ''gone.sed''] (Inr 27)) = Inr None"
proof -
  have l: "load demo_fs demo_float ''data'' 27 [''gone.sed''] [] [] =
      ([FileMissing ''data/gone.sed''], Inr [])"
    by (simp add: read_gone os_path_join_def)
  have h: "\<forall>f \<in> set [''gone.sed'', ''gone.sed''].
      read_file demo_fs demo_float ''data'' 27 f = None \<or>
      read_file demo_fs demo_float ''data'' 27 f = Some (Inr [])"
    by (simp add: read_gone)
  from get_data_no_data [of demo_fs demo_float "''data''" 27 "[''gone.sed'']"
      "[FileMissing ''data/gone.sed'']" id] l
  have "get_data demo_fs demo_float id ''data'' [''gone.sed''] (Inr 27) =
     ([FileMissing ''data/gone.sed'', NoValidData], Inr None)"
    by simp
  moreover from get_data_no_data [of demo_fs demo_float "''data''" 27
      "[''gone.sed'', ''gone.sed'']" "[]" id] h
  have "snd (get_data demo_fs demo_float id ''data'' [''gone.sed'', ''gone.sed''] (Inr 27)) = Inr None"
    by blast
  ultimately show ?thesis by simp
qed

text \<open>
  Claim C8. What \<open>get_data\<close> returns or raises is what it returns or raises on the files
  that exist: a missing file does not end the batch. When the call returns, one message
  per missing file has been printed, in the order of the list, and the cells of the array
  are the values of the files that exist.
\<close>

theorem get_data_missing_files:
  "snd (get_data fs pf r3 p files nc) =
     snd (get_data fs pf r3 p (filter (\<lambda>f. \<not> is_missing fs p f) files) nc) \<and>
   (get_data fs pf r3 p files (Inr n) = (out, Inr r) \<longrightarrow>
      (\<exists>rest. out = map (\<lambda>f. FileMissing (os_path_join p f)) (filter (is_missing fs p) files) @ rest) \<and>
      (r = None \<or>
       (\<exists>a. r = Some a \<and>
          cells a = map r3 (concat (map (file_values fs pf p n)
                                     (filter (\<lambda>f. \<not> is_missing fs p f) files))))))"
proof (intro conjI impI)
  show "snd (get_data fs pf r3 p files nc) =
     snd (get_data fs pf r3 p (filter (\<lambda>f. \<not> is_missing fs p f) files) nc)"
  proof (cases nc)
    case (Inl e)
    then show ?thesis by (simp add: get_data_def)
  next
    case (Inr k)
    obtain o1 r1 where l1: "load fs pf p k files [] [] = (o1, r1)" by force
    obtain o2 r2 where
      l2: "load fs pf p k (filter (\<lambda>f. \<not> is_missing fs p f) files) [] [] = (o2, r2)" by force
    from load_skip_missing [of fs pf p k files "[]" "[]" "[]"] l1 l2 have "r1 = r2" by simp
    with l1 l2 Inr show ?thesis
      by (cases r1) (simp_all add: get_data_def split: sum.splits)
  qed
next
  assume g: "get_data fs pf r3 p files (Inr n) = (out, Inr r)"
  obtain o1 r1 where l1: "load fs pf p n files [] [] = (o1, r1)" by force
  with g obtain data where r1: "r1 = Inr data"
    by (cases r1) (auto simp: get_data_def)
  from load_Inr [OF l1 [unfolded r1]] have
    o1: "o1 = map (\<lambda>f. FileMissing (os_path_join p f)) (filter (is_missing fs p) files)" and
    d: "data = concat (map (file_values fs pf p n) files)" by simp_all
  have fv: "concat (map (file_values fs pf p n) files) =
      concat (map (file_values fs pf p n) (filter (\<lambda>f. \<not> is_missing fs p f) files))"
    by (induction files) (simp_all add: file_values_missing)
  from g l1 r1 o1 show
    "\<exists>rest. out = map (\<lambda>f. FileMissing (os_path_join p f)) (filter (is_missing fs p) files) @ rest"
    by (auto simp: get_data_def split: if_splits sum.splits)
  from g l1 r1 d fv show "r = None \<or>
       (\<exists>a. r = Some a \<and>
          cells a = map r3 (concat (map (file_values fs pf p n)
                                     (filter (\<lambda>f. \<not> is_missing fs p f) files))))"
    by (auto simp: get_data_def reshape_def split: if_splits sum.splits)
qed

theorem get_data_missing_files_witness:
  "snd (get_data demo_fs demo_float id ''data'' [''gone.sed'', ''a.sed''] (Inr 27)) =
     Inr (Some \<lparr>shape = (1, 2151), cells = replicate 2151 (1 / 2)\<rparr>) \<and>
   (\<exists>rest. fst (get_data demo_fs demo_float id ''data'' [''gone.sed'', ''a.sed''] (Inr 27)) =
      FileMissing ''data/gone.sed'' # rest)"
proof -
  have m: "is_missing demo_fs ''data'' ''gone.sed''" "\<not> is_missing demo_fs ''data'' ''a.sed''"
    by (simp_all add: is_missing_def demo_fs_def os_path_join_def)
  from get_data_missing_files [of demo_fs demo_float id "''data''" "[''gone.sed'', ''a.sed'']"
      "Inr 27" 27 "[FileMissing ''data/gone.sed'', LoadedOk, DatasetShape 1 2151]"
      "Some \<lparr>shape = (1, 2151), cells = replicate 2151 (1 / 2)\<rparr>"]
  show ?thesis using m get_a get_gone_a by (simp add: os_path_join_def)
qed

section \<open>Properties of rounding\<close>

lemma p2_pos: "0 < (2::rat) powi e"
  by (simp add: zero_less_power_int)

lemma p2_add: "(2::rat) powi (m + n) = 2 powi m * 2 powi n"
  by (simp add: power_int_add)

lemma p2_mono: "m \<le> n \<Longrightarrow> (2::rat) powi m \<le> 2 powi n"
  by (simp add: power_int_increasing)

lemma p2_less_cancel: "(2::rat) powi m < 2 powi n \<Longrightarrow> m < n"
  by (metis not_le p2_mono)

lemma bitlen_p2:
  assumes "0 < a"
  shows "2 powi (bitlen a - 1) \<le> rat_of_int a" and "rat_of_int a < 2 powi (bitlen a)"
proof -
  from bitlen_bounds [OF assms] have lo: "2 ^ nat (bitlen a - 1) \<le> a" and hi: "a < 2 ^ nat (bitlen a)"
    by simp_all
  from assms have b1: "1 \<le> bitlen a" using bitlen_eq_zero_iff [of a] bitlen_nonneg [of a] by linarith
  from lo have "rat_of_int (2 ^ nat (bitlen a - 1)) \<le> rat_of_int a" by (simp only: of_int_le_iff)
  with b1 show "2 powi (bitlen a - 1) \<le> rat_of_int a" by (simp add: power_int_def)
  from hi have "rat_of_int a < rat_of_int (2 ^ nat (bitlen a))" by (simp only: of_int_less_iff)
  with b1 show "rat_of_int a < 2 powi (bitlen a)" by (simp add: power_int_def)
qed

lemma floor_log2_bounds:
  assumes "0 < x"
  shows "2 powi (floor_log2 x) \<le> x" and "x < 2 powi (floor_log2 x + 1)"
proof -
  obtain a b where q: "quotient_of x = (a, b)" by force
  then have b: "0 < b" and x: "x = rat_of_int a / rat_of_int b"
    by (simp_all add: quotient_of_denom_pos quotient_of_div)
  with assms have a: "0 < a" by (simp add: zero_less_divide_iff)
  define A B d where "A = rat_of_int a" and "B = rat_of_int b" and "d = bitlen a - bitlen b"
  have B: "0 < B" using b by (simp add: B_def)
  have Alo: "2 powi (bitlen a - 1) \<le> A" and Ahi: "A < 2 powi (bitlen a)"
    using bitlen_p2 [OF a] by (simp_all add: A_def)
  have Blo: "2 powi (bitlen b - 1) \<le> B" and Bhi: "B < 2 powi (bitlen b)"
    using bitlen_p2 [OF b] by (simp_all add: B_def)
  have cond: "(b * 2 ^ nat d \<le> a * 2 ^ nat (- d)) = (B * 2 powi d \<le> A)"
  proof (cases "0 \<le> d")
    case True
    then have "(b * 2 ^ nat d \<le> a * 2 ^ nat (- d)) = (b * 2 ^ nat d \<le> a)" by simp
    also have "\<dots> = (rat_of_int (b * 2 ^ nat d) \<le> rat_of_int a)" by (simp only: of_int_le_iff)
    also have "\<dots> = (B * 2 powi d \<le> A)" using True by (simp add: A_def B_def power_int_def)
    finally show ?thesis .
  next
    case False
    then have "(b * 2 ^ nat d \<le> a * 2 ^ nat (- d)) = (b \<le> a * 2 ^ nat (- d))" by simp
    also have "\<dots> = (rat_of_int b \<le> rat_of_int (a * 2 ^ nat (- d)))" by (simp only: of_int_le_iff)
    also have "\<dots> = (B \<le> A * 2 ^ nat (- d))" by (simp add: A_def B_def)
    also have "\<dots> = (B * 2 powi d \<le> A)"
      using False by (simp add: power_int_def field_simps)
    finally show ?thesis .
  qed
  have fl: "floor_log2 x = (if B * 2 powi d \<le> A then d else d - 1)"
    using q cond by (simp add: floor_log2_def d_def Let_def)
  have xAB: "x = A / B" using x by (simp add: A_def B_def)
  have up: "A < B * 2 powi (d + 1)"
  proof -
    have "2 powi (bitlen a) = 2 powi (bitlen b - 1) * (2::rat) powi (d + 1)"
      by (simp add: d_def flip: p2_add)
    also have "\<dots> \<le> B * 2 powi (d + 1)" using Blo by (simp add: p2_pos)
    finally show ?thesis using Ahi by simp
  qed
  have low: "B * 2 powi (d - 1) \<le> A"
  proof -
    have "B * 2 powi (d - 1) \<le> 2 powi (bitlen b) * (2::rat) powi (d - 1)"
      using Bhi by (simp add: p2_pos)
    also have "\<dots> = 2 powi (bitlen a - 1)" by (simp add: d_def flip: p2_add)
    finally show ?thesis using Alo by simp
  qed
  show "2 powi (floor_log2 x) \<le> x"
    using fl low B by (auto simp: xAB pos_le_divide_eq mult.commute)
  show "x < 2 powi (floor_log2 x + 1)"
    using fl up B by (auto simp: xAB pos_divide_less_eq mult.commute not_le)
qed

lemma floor_log2_mono:
  assumes "0 < x" and "x \<le> y"
  shows "floor_log2 x \<le> floor_log2 y"
proof -
  from assms have y: "0 < y" by simp
  have "2 powi (floor_log2 x) \<le> x" by (rule floor_log2_bounds [OF assms(1)])
  also note assms(2)
  also have "y < 2 powi (floor_log2 y + 1)" by (rule floor_log2_bounds [OF y])
  finally have "floor_log2 x < floor_log2 y + 1" by (rule p2_less_cancel)
  then show ?thesis by simp
qed

lemma round_half_even_of_int: "round_half_even (of_int n) = n"
  by (simp add: round_half_even_def)

lemma round_half_even_mono:
  assumes "x \<le> y"
  shows "round_half_even x \<le> round_half_even y"
proof (cases "\<lfloor>x\<rfloor> = \<lfloor>y\<rfloor>")
  case True
  with assms show ?thesis by (auto simp: round_half_even_def Let_def)
next
  case False
  with assms have "\<lfloor>x\<rfloor> + 1 \<le> \<lfloor>y\<rfloor>" using floor_mono [OF assms] by linarith
  moreover have "round_half_even x \<le> \<lfloor>x\<rfloor> + 1" by (simp add: round_half_even_def Let_def)
  moreover have "\<lfloor>y\<rfloor> \<le> round_half_even y" by (simp add: round_half_even_def Let_def)
  ultimately show ?thesis by linarith
qed


lemma round_half_even_le: "x \<le> of_int n \<Longrightarrow> round_half_even x \<le> n"
  using round_half_even_mono [of x "of_int n"] by (simp add: round_half_even_of_int)

lemma round_half_even_ge: "of_int n \<le> x \<Longrightarrow> n \<le> round_half_even x"
  using round_half_even_mono [of "of_int n" x] by (simp add: round_half_even_of_int)

lemma round_mag_nonneg: "0 \<le> round_mag x"
proof (cases "x \<le> 0")
  case True
  then show ?thesis by (simp add: round_mag_def)
next
  case False
  define q where "q = max (floor_log2 x) (- 1022) - 52"
  from False have "rat_of_int 0 \<le> x / 2 powi q" by (simp add: p2_pos)
  then have "0 \<le> round_half_even (x / 2 powi q)" by (rule round_half_even_ge)
  with False show ?thesis by (simp add: round_mag_def q_def Let_def p2_pos)
qed

lemma round_mag_mono:
  assumes "x \<le> y"
  shows "round_mag x \<le> round_mag y"
proof (cases "x \<le> 0")
  case True
  then show ?thesis using round_mag_nonneg [of y] by (simp add: round_mag_def)
next
  case False
  then have x: "0 < x" and y: "0 < y" using assms by simp_all
  define qx qy where "qx = max (floor_log2 x) (- 1022) - 52"
    and "qy = max (floor_log2 y) (- 1022) - 52"
  have rx: "round_mag x = of_int (round_half_even (x / 2 powi qx)) * 2 powi qx"
    using x by (simp add: round_mag_def qx_def Let_def)
  have ry: "round_mag y = of_int (round_half_even (y / 2 powi qy)) * 2 powi qy"
    using y by (simp add: round_mag_def qy_def Let_def)
  have qle: "qx \<le> qy" using floor_log2_mono [OF x assms] by (simp add: qx_def qy_def)
  show ?thesis
  proof (cases "qx = qy")
    case True
    from assms have "x / 2 powi qy \<le> y / 2 powi qy" by (simp add: divide_right_mono p2_pos less_imp_le)
    then have "round_half_even (x / 2 powi qy) \<le> round_half_even (y / 2 powi qy)"
      by (rule round_half_even_mono)
    then show ?thesis by (simp add: rx ry True p2_pos)
  next
    case False
    with qle have lt: "qx + 1 \<le> qy" by simp
    then have ey: "qy = floor_log2 y - 52" by (auto simp: qx_def qy_def)
    have "x < 2 powi (floor_log2 x + 1)" by (rule floor_log2_bounds [OF x])
    also have "\<dots> \<le> 2 powi (qx + 53)" by (rule p2_mono) (simp add: qx_def)
    also have "\<dots> = 2 ^ 53 * 2 powi qx" by (simp add: p2_add)
    finally have "x / 2 powi qx \<le> rat_of_int (2 ^ 53)"
      by (simp add: pos_divide_le_eq p2_pos)
    then have "round_half_even (x / 2 powi qx) \<le> 2 ^ 53" by (rule round_half_even_le)
    then have "rat_of_int (round_half_even (x / 2 powi qx)) \<le> rat_of_int (2 ^ 53)"
      by (simp only: of_int_le_iff)
    then have "round_mag x \<le> 2 ^ 53 * 2 powi qx"
      by (simp add: rx p2_pos)
    also have "\<dots> = 2 powi (qx + 53)" by (simp add: p2_add)
    also have "\<dots> \<le> 2 powi (qy + 52)" by (rule p2_mono) (use lt in simp)
    also have "\<dots> = 2 ^ 52 * 2 powi qy" by (simp add: p2_add)
    also have "\<dots> \<le> round_mag y"
    proof -
      have "2 powi (qy + 52) \<le> y" using floor_log2_bounds(1) [OF y] by (simp add: ey)
      then have "rat_of_int (2 ^ 52) \<le> y / 2 powi qy"
        by (simp add: pos_le_divide_eq p2_pos p2_add mult.commute)
      then have "2 ^ 52 \<le> round_half_even (y / 2 powi qy)" by (rule round_half_even_ge)
      then have "rat_of_int (2 ^ 52) \<le> rat_of_int (round_half_even (y / 2 powi qy))"
        by (simp only: of_int_le_iff)
      then show ?thesis by (simp add: ry p2_pos)
    qed
    finally show ?thesis .
  qed
qed


lemma floor_log2_unique:
  assumes "0 < x" and "2 powi e \<le> x" and "x < 2 powi (e + 1)"
  shows "floor_log2 x = e"
proof -
  have "2 powi (floor_log2 x) \<le> x" by (rule floor_log2_bounds [OF assms(1)])
  also note assms(3)
  finally have a: "floor_log2 x < e + 1" by (rule p2_less_cancel)
  note assms(2)
  also have "x < 2 powi (floor_log2 x + 1)" by (rule floor_log2_bounds [OF assms(1)])
  finally have "e < floor_log2 x + 1" by (rule p2_less_cancel)
  with a show ?thesis by simp
qed

lemma round_half_even_near:
  assumes "\<bar>m - of_int n\<bar> < 1 / 2"
  shows "round_half_even m = n"
proof (cases "of_int n \<le> m")
  case True
  with assms have "\<lfloor>m\<rfloor> = n" by (intro floor_unique) (auto simp: abs_less_iff)
  with assms True show ?thesis by (auto simp: round_half_even_def Let_def abs_less_iff)
next
  case False
  with assms have "\<lfloor>m\<rfloor> = n - 1" by (intro floor_unique) (auto simp: abs_less_iff)
  with assms False show ?thesis by (auto simp: round_half_even_def Let_def abs_less_iff)
qed

lemma round_mag_eq:
  assumes "0 < x" and "2 powi e \<le> x" and "x < 2 powi (e + 1)"
    and "\<bar>x / 2 powi (max e (- 1022) - 52) - of_int n\<bar> < 1 / 2"
  shows "round_mag x = of_int n * 2 powi (max e (- 1022) - 52)"
proof -
  have "floor_log2 x = e" by (rule floor_log2_unique) fact+
  with assms(1) round_half_even_near [OF assms(4)] show ?thesis
    by (simp add: round_mag_def Let_def)
qed

lemma round_mag_dyadic:
  assumes "0 \<le> k" and "k < 2 ^ 53" and "- 1074 \<le> j"
  shows "round_mag (of_int k * 2 powi j) = of_int k * 2 powi j"
proof (cases "k = 0")
  case True
  then show ?thesis by (simp add: round_mag_def)
next
  case False
  with assms have k: "0 < k" by simp
  define x where "x = rat_of_int k * 2 powi j"
  define q where "q = max (floor_log2 x) (- 1022) - 52"
  have x: "0 < x" using k by (simp add: x_def p2_pos)
  have "2 powi (floor_log2 x) \<le> x" by (rule floor_log2_bounds [OF x])
  also have "x < 2 ^ 53 * 2 powi j"
  proof -
    from assms(2) have "rat_of_int k < rat_of_int (2 ^ 53)" by (simp only: of_int_less_iff)
    then show ?thesis by (simp add: x_def p2_pos)
  qed
  also have "\<dots> = 2 powi (53 + j)" by (simp add: p2_add)
  finally have "floor_log2 x < 53 + j" by (rule p2_less_cancel)
  with assms(3) have qj: "q \<le> j" by (simp add: q_def)
  have "x / 2 powi q = rat_of_int k * 2 powi (j - q)"
    by (simp add: x_def power_int_diff)
  also have "\<dots> = rat_of_int (k * 2 ^ nat (j - q))" using qj by (simp add: power_int_def)
  finally have "round_half_even (x / 2 powi q) = k * 2 ^ nat (j - q)"
    by (simp only: round_half_even_of_int)
  then have "round_mag x = rat_of_int (k * 2 ^ nat (j - q)) * 2 powi q"
    using x by (simp add: round_mag_def q_def Let_def)
  also have "\<dots> = rat_of_int k * (2 powi (j - q) * 2 powi q)" using qj by (simp add: power_int_def)
  also have "\<dots> = x" by (simp add: x_def flip: p2_add)
  finally show ?thesis by (simp add: x_def)
qed

lemma round_mag_int:
  assumes "0 \<le> k" and "k < 2 ^ 53"
  shows "round_mag (of_int k) = of_int k"
  using round_mag_dyadic [OF assms, of 0] by simp


lemma round_to_int:
  assumes "0 \<le> k" and "k < 2 ^ 53"
  shows "round_to s (rat_of_int k) = Fin s (rat_of_int k)"
proof -
  from assms(2) have "rat_of_int k < rat_of_int (2 ^ 53)" by (simp only: of_int_less_iff)
  also have "\<dots> \<le> 2 ^ 1024" by simp
  finally have "\<not> 2 ^ 1024 \<le> rat_of_int k" by simp
  with round_mag_int [OF assms] show ?thesis by (simp add: round_to_def)
qed

lemma round_to_nums:
  "round_to s 2 = Fin s 2" "round_to s 3 = Fin s 3" "round_to s 8 = Fin s 8"
  "round_to s 9 = Fin s 9" "round_to s 11 = Fin s 11" "round_to s 88 = Fin s 88"
  "round_to s 79 = Fin s 79" "round_to s 1 = Fin s 1" "round_to s 4 = Fin s 4"
  "round_to s 6 = Fin s 6"
  using round_to_int [of 1 s] round_to_int [of 2 s] round_to_int [of 3 s] round_to_int [of 8 s]
    round_to_int [of 9 s] round_to_int [of 11 s] round_to_int [of 88 s] round_to_int [of 79 s]
    round_to_int [of 4 s] round_to_int [of 6 s]
  by simp_all

section \<open>The range of the NDVI\<close>

lemma literal_eps: "literal (1 / 10 ^ 10) = Fin False (7737125245533627 / 2 ^ 86)"
proof -
  have "round_mag (1 / 10000000000) = 7737125245533627 / 2 ^ 86"
    using round_mag_eq [of "1 / 10000000000" "- 34" 7737125245533627]
    by (simp add: power_int_minus)
  then show ?thesis by (simp add: literal_def round_to_def)
qed

lemma round_mag_eps: "round_mag (7737125245533627 / 2 ^ 86) = 7737125245533627 / 2 ^ 86"
  using round_mag_dyadic [of 7737125245533627 "- 86"] by (simp add: power_int_minus)

lemma round_mag_1: "round_mag 1 = 1"
  using round_mag_int [of 1] by simp

lemma round_mag_0: "round_mag 0 = 0"
  by (simp add: round_mag_def)

lemma round_to_le:
  assumes "x \<le> y" and "round_mag y = y" and "y < 2 ^ 1024"
  shows "round_to s x = Fin s (round_mag x) \<and> 0 \<le> round_mag x \<and> round_mag x \<le> y"
proof -
  from round_mag_mono [OF assms(1)] assms(2) have "round_mag x \<le> y" by simp
  with assms(3) round_mag_nonneg [of x] show ?thesis by (simp add: round_to_def)
qed

lemma round_to_ge:
  assumes "y \<le> x" and "round_mag y = y"
  shows "round_to s x = Infty s \<or> (round_to s x = Fin s (round_mag x) \<and> y \<le> round_mag x)"
proof -
  from round_mag_mono [OF assms(1)] assms(2) have "y \<le> round_mag x" by simp
  then show ?thesis by (simp add: round_to_def Let_def)
qed

lemma nonneg_FinD:
  assumes "nonneg (Fin s a)"
  shows "0 \<le> a" and "a < 2 ^ 1024" and "round_mag a = a" and "signed s a = a"
    and "signed (\<not> s) a = - a"
  using assms by (auto simp: nonneg_def signed_def)

lemma fsub_nonneg:
  assumes "nonneg (Fin s a)" and "nonneg (Fin t b)"
  shows "\<exists>u n. fsub (Fin s a) (Fin t b) = Fin u n \<and> 0 \<le> n \<and> n \<le> max a b"
proof -
  note A = nonneg_FinD [OF assms(1)] and B = nonneg_FinD [OF assms(2)]
  have v: "signed s a + signed (\<not> t) b = a - b" using A(4) B(5) by simp
  show ?thesis
  proof (cases "a = b")
    case True
    with v A(1) show ?thesis by (simp add: fsub_def)
  next
    case False
    have m: "round_mag (max a b) = max a b" "max a b < 2 ^ 1024"
      using A(2,3) B(2,3) by (simp_all add: max_def)
    have "\<bar>a - b\<bar> \<le> max a b" using A(1) B(1) by (simp add: abs_le_iff max_def)
    from round_to_le [OF this m, of "a - b < 0"] False v show ?thesis
      by (auto simp: fsub_def Let_def)
  qed
qed

lemma fadd_nonneg:
  assumes "nonneg (Fin s a)" and "nonneg (Fin t b)"
  shows "fadd (Fin s a) (Fin t b) = Infty False \<or>
    (\<exists>u r. fadd (Fin s a) (Fin t b) = Fin u r \<and> max a b \<le> r \<and> signed u r = r)"
proof -
  note A = nonneg_FinD [OF assms(1)] and B = nonneg_FinD [OF assms(2)]
  have v: "signed s a + signed t b = a + b" using A(4) B(4) by simp
  show ?thesis
  proof (cases "a + b = 0")
    case True
    with A(1) B(1) have "a = 0" "b = 0" by simp_all
    with v show ?thesis by (simp add: signed_def)
  next
    case False
    with A(1) B(1) have pos: "0 < a + b" by simp
    have m: "round_mag (max a b) = max a b" using A(3) B(3) by (simp add: max_def)
    have "max a b \<le> a + b" using A(1) B(1) by simp
    from round_to_ge [OF this m, of False] False v pos show ?thesis
      by (auto simp: Let_def signed_def)
  qed
qed

lemma fadd_eps:
  assumes "signed u r = r" and "0 \<le> r" and "y \<le> r" and "round_mag y = y"
  shows "fadd (Fin u r) (literal (1 / 10 ^ 10)) = Infty False \<or>
    (\<exists>d. fadd (Fin u r) (literal (1 / 10 ^ 10)) = Fin False d \<and> y \<le> d \<and> 0 < d)"
proof -
  define e :: rat where "e = 7737125245533627 / 2 ^ 86"
  have e: "0 < e" "round_mag e = e" using round_mag_eps by (simp_all add: e_def)
  have lit: "literal (1 / 10 ^ 10) = Fin False e" using literal_eps by (simp add: e_def)
  have v: "signed u r + signed False e = r + e" using assms(1) by (simp add: signed_def)
  have pos: "0 < r + e" using assms(2) e(1) by simp
  have f: "fadd (Fin u r) (Fin False e) = round_to False (r + e)"
    using v pos by (simp add: Let_def)
  have "y \<le> r + e" using assms(3) e(1) by simp
  from round_to_ge [OF this assms(4), of False]
  have 1: "round_to False (r + e) = Infty False \<or>
    (round_to False (r + e) = Fin False (round_mag (r + e)) \<and> y \<le> round_mag (r + e))" .
  have "e \<le> r + e" using assms(2) by simp
  from round_mag_mono [OF this] e have "0 < round_mag (r + e)" by simp
  with 1 show ?thesis unfolding lit f by auto
qed

lemma fdiv_le_1:
  assumes "0 \<le> n" and "n \<le> d" and "0 < d"
  shows "\<exists>u m. fdiv (Fin s n) (Fin False d) = Fin u m \<and> 0 \<le> m \<and> m \<le> 1"
proof -
  from assms have "n / d \<le> 1" by simp
  from round_to_le [OF this round_mag_1, of s] assms(3) show ?thesis by auto
qed

lemma ndvi_bounded:
  assumes "nonneg nir" and "nonneg red"
  shows "\<exists>u m. ndvi_value nir red = Fin u m \<and> 0 \<le> m \<and> m \<le> 1"
proof -
  from assms obtain s a t b where nir: "nir = Fin s a" and red: "red = Fin t b"
    by (auto simp: nonneg_def split: f64.splits)
  note A = nonneg_FinD [OF assms(1) [unfolded nir]] and B = nonneg_FinD [OF assms(2) [unfolded red]]
  from fsub_nonneg [OF assms [unfolded nir red]] obtain sn n where
    num: "fsub nir red = Fin sn n" and n: "0 \<le> n" "n \<le> max a b"
    unfolding nir red by blast
  have m: "round_mag (max a b) = max a b" using A(3) B(3) by (simp add: max_def)
  have m0: "0 \<le> max a b" using A(1) by simp
  let ?eps = "literal (1 / 10 ^ 10)"
  have den: "fadd (fadd nir red) ?eps = Infty False \<or>
    (\<exists>d. fadd (fadd nir red) ?eps = Fin False d \<and> max a b \<le> d \<and> 0 < d)"
  proof -
    from fadd_nonneg [OF assms [unfolded nir red]] show ?thesis
    proof
      assume "fadd (Fin s a) (Fin t b) = Infty False"
      then have "fadd (fadd nir red) ?eps = Infty False"
        by (simp only: nir red literal_eps fadd.simps)
      then show ?thesis ..
    next
      assume "\<exists>u r. fadd (Fin s a) (Fin t b) = Fin u r \<and> max a b \<le> r \<and> signed u r = r"
      then obtain u r where
        f: "fadd (Fin s a) (Fin t b) = Fin u r" and r: "max a b \<le> r" "signed u r = r" by blast
      from r(1) m0 have "0 \<le> r" by (rule order_trans [rotated])
      from fadd_eps [OF r(2) this r(1) m] f show ?thesis by (simp add: nir red)
    qed
  qed
  from den show ?thesis
  proof
    assume "fadd (fadd nir red) ?eps = Infty False"
    with num show ?thesis by (simp add: ndvi_value_def)
  next
    assume "\<exists>d. fadd (fadd nir red) ?eps = Fin False d \<and> max a b \<le> d \<and> 0 < d"
    then obtain d where d: "fadd (fadd nir red) ?eps = Fin False d" "max a b \<le> d" "0 < d"
      by blast
    from n(2) d(2) have "n \<le> d" by (rule order_trans)
    from fdiv_le_1 [OF n(1) this d(3), of sn] num d(1) show ?thesis
      by (simp add: ndvi_value_def)
  qed
qed


lemma ndvi_equal:
  assumes "nonneg (Fin False x)" and "0 < x"
  shows "ndvi_value (Fin False x) (Fin False x) = Fin False 0"
proof -
  note A = nonneg_FinD [OF assms(1)]
  have num: "fsub (Fin False x) (Fin False x) = Fin False 0"
    by (simp add: fsub_def signed_def)
  let ?eps = "literal (1 / 10 ^ 10)"
  have den: "fadd (fadd (Fin False x) (Fin False x)) ?eps = Infty False \<or>
    (\<exists>d. fadd (fadd (Fin False x) (Fin False x)) ?eps = Fin False d \<and> 0 < d)"
  proof -
    from fadd_nonneg [OF assms(1) assms(1)] show ?thesis
    proof
      assume "fadd (Fin False x) (Fin False x) = Infty False"
      then have "fadd (fadd (Fin False x) (Fin False x)) ?eps = Infty False"
        by (simp only: literal_eps fadd.simps)
      then show ?thesis ..
    next
      assume "\<exists>u r. fadd (Fin False x) (Fin False x) = Fin u r \<and> max x x \<le> r \<and> signed u r = r"
      then obtain u r where
        f: "fadd (Fin False x) (Fin False x) = Fin u r" and r: "x \<le> r" "signed u r = r" by auto
      from r(1) assms(2) have "0 \<le> r" by simp
      from fadd_eps [OF r(2) this r(1) A(3)] f show ?thesis by auto
    qed
  qed
  from den show ?thesis
  proof
    assume "fadd (fadd (Fin False x) (Fin False x)) ?eps = Infty False"
    with num show ?thesis by (simp add: ndvi_value_def)
  next
    assume "\<exists>d. fadd (fadd (Fin False x) (Fin False x)) ?eps = Fin False d \<and> 0 < d"
    then obtain d where d: "fadd (fadd (Fin False x) (Fin False x)) ?eps = Fin False d" "0 < d"
      by blast
    with num show ?thesis by (simp add: ndvi_value_def round_to_def round_mag_0)
  qed
qed

lemma round_to_1e7: "round_to False 10000000 = Fin False 10000000"
  using round_mag_int [of 10000000] by (simp add: round_to_def)

lemma round_to_1e7_eps:
  "round_to False (10000000 + 7737125245533627 / 2 ^ 86) = Fin False 10000000"
proof -
  have "round_mag (10000000 + 7737125245533627 / 2 ^ 86) = 10000000"
    using round_mag_eq [of "10000000 + 7737125245533627 / 2 ^ 86" 23 5368709120000000]
    by (simp add: power_int_minus)
  then show ?thesis by (simp add: round_to_def)
qed

lemma ndvi_1e7: "ndvi_value (Fin False (10 ^ 7)) (Fin False 0) = Fin False 1"
proof -
  have 1: "fsub (Fin False (10 ^ 7)) (Fin False 0) = Fin False (10 ^ 7)"
    using round_to_1e7 by (simp add: fsub_def signed_def)
  have 2: "fadd (Fin False (10 ^ 7)) (Fin False 0) = Fin False (10 ^ 7)"
    using round_to_1e7 by (simp add: signed_def)
  have "fadd (Fin False (10 ^ 7)) (literal (1 / 10 ^ 10)) =
      fadd (Fin False (10 ^ 7)) (Fin False (7737125245533627 / 2 ^ 86))"
    by (simp only: literal_eps)
  also have "\<dots> = Fin False (10 ^ 7)"
    using round_to_1e7_eps by (simp add: signed_def)
  finally have 3: "fadd (Fin False (10 ^ 7)) (literal (1 / 10 ^ 10)) = Fin False (10 ^ 7)" .
  have 4: "fdiv (Fin False (10 ^ 7)) (Fin False (10 ^ 7)) = Fin False 1"
    using round_mag_1 by (simp add: round_to_def)
  show ?thesis by (simp only: ndvi_value_def 1 2 3 4)
qed

lemma nonneg_1e7: "nonneg (Fin False (10 ^ 7))"
  using round_mag_int [of 10000000] by (simp add: nonneg_def)

lemma nonneg_0: "nonneg (Fin False 0)"
  by (simp add: nonneg_def round_mag_0)

text \<open>
  Claim C6, amended. For finite NIR and RED that are not negative, the NDVI is a finite
  number of magnitude at most 1, that is, it lies in the closed interval from -1 to 1; and
  for every finite \<open>x > 0\<close> the NDVI of \<open>nir = x\<close>, \<open>red = x\<close> is exactly 0.
\<close>

theorem ndvi_range:
  "(nonneg nir \<and> nonneg red \<longrightarrow> (\<exists>u m. ndvi_value nir red = Fin u m \<and> 0 \<le> m \<and> m \<le> 1)) \<and>
   (nonneg (Fin False x) \<and> 0 < x \<longrightarrow> ndvi_value (Fin False x) (Fin False x) = Fin False 0)"
  using ndvi_bounded [of nir red] ndvi_equal [of x] by blast

lemma nonneg_3: "nonneg (Fin False 3)"
  using round_mag_int [of 3] by (simp add: nonneg_def)

lemma nonneg_1: "nonneg (Fin False 1)"
  using round_mag_1 by (simp add: nonneg_def)

theorem ndvi_range_witness:
  "(\<exists>u m. ndvi_value (Fin False 3) (Fin False 1) = Fin u m \<and> 0 \<le> m \<and> m \<le> 1) \<and>
   ndvi_value (Fin False 3) (Fin False 3) = Fin False 0"
  using ndvi_range [of "Fin False 3" "Fin False 1" 3] nonneg_3 nonneg_1 by simp

text \<open>
  Claim C6 as stated asks for a value strictly below 1. For \<open>nir = 1e7\<close> and \<open>red = 0\<close>
  the sum \<open>nir + red + 1e-10\<close> rounds to \<open>1e7\<close>, and the NDVI is exactly 1.
\<close>

theorem ndvi_one_counterexample:
  "nonneg (Fin False (10 ^ 7)) \<and> nonneg (Fin False 0) \<and>
   ndvi_value (Fin False (10 ^ 7)) (Fin False 0) = Fin False 1"
  using nonneg_1e7 nonneg_0 ndvi_1e7 by simp

section \<open>Properties of band resolution\<close>

lemma select_mask: "select (map P cs) row = map snd (filter (\<lambda>(c, v). P c) (zip cs row))"
proof (induction cs arbitrary: row)
  case Nil
  then show ?case by (simp add: select_def)
next
  case (Cons c cs)
  then show ?case by (cases row) (auto simp: select_def)
qed

lemma init_average:
  assumes "init s ''average'' = Inr obj" and "map_of (bands obj) b = Some w"
  shows "method' obj = Average" and "\<exists>lo hi. w = Tup lo hi"
proof -
  from init_InrD [OF assms(1)] obtain bs where
    bs: "get_sensor_bands s = Some bs" "bands obj = bs" and
    m: "parse_method ''average'' = Some (method' obj)" and
    c: "if s = ''sentinel-2'' then centerbands obj = bs \<and> ''average'' = ''centerband''
        else center_all bs = Inr (centerbands obj)"
    by blast
  from m show "method' obj = Average" by (simp add: parse_method_def)
  from c have s: "s \<noteq> ''sentinel-2''" by (auto split: if_splits)
  from assms(2) bs have "(b, w) \<in> set bs" by (auto dest: map_of_SomeD)
  from get_sensor_bands_ok [OF bs(1) this] s show "\<exists>lo hi. w = Tup lo hi"
    by (cases w) (simp_all add: band_ok_def)
qed

lemma round_to_2: "round_to False 2 = Fin False 2"
  using round_mag_int [of 2] by (simp add: round_to_def)

lemma nanmean_pair:
  assumes "v1 \<noteq> NaN" and "v2 \<noteq> NaN"
  shows "nanmean [v1, v2] = fdiv (fadd v1 v2) (Fin False 2)"
  using assms by (simp add: nanmean_def round_to_2)

lemma nanmean_Nil: "nanmean [] = NaN"
  by (simp add: nanmean_def)

lemma nanmean_numbers:
  assumes "xs \<noteq> []" and "NaN \<notin> set xs"
  shows "nanmean xs = arithmetic_mean xs"
proof -
  from assms(2) have "filter (\<lambda>v. v \<noteq> NaN) xs = xs" by (induction xs) auto
  moreover from assms(2) have "map (\<lambda>v. if v = NaN then Fin False 0 else v) xs = xs"
    by (induction xs) auto
  ultimately show ?thesis using assms(1) by (simp add: nanmean_def arithmetic_mean_def)
qed

text \<open>
  Claim C1, amended. For every sensor of the catalogue with interval bands and every band
  name of its band set, construction with the average policy succeeds, the band is an
  interval \<open>(lo, hi)\<close>, and resolving it returns one value per row. For a row whose cells
  with a label in the closed interval are numbers, at least one, the value is their
  arithmetic mean: their sum divided by how many they are. When these cells are one at
  \<open>lo\<close> with the number \<open>v1\<close> and one at \<open>hi\<close> with the number \<open>v2\<close>, the value is
  \<open>(v1 + v2) / 2\<close>.
\<close>

theorem average_mean:
  assumes "get_sensor_bands s = Some bs" and "s \<noteq> ''sentinel-2''" and "map_of bs b = Some w"
  shows "\<exists>obj lo hi vs. init s ''average'' = Inr obj \<and> w = Tup lo hi \<and>
    get_band_values obj df b = Inr vs \<and> length vs = length (rows df) \<and>
    (\<forall>i. i < length (rows df) \<longrightarrow>
       (in_range lo hi (columns df) (rows df ! i) \<noteq> [] \<and>
        NaN \<notin> set (map snd (in_range lo hi (columns df) (rows df ! i))) \<longrightarrow>
          vs ! i = arithmetic_mean (map snd (in_range lo hi (columns df) (rows df ! i)))) \<and>
       (\<forall>v1 v2. in_range lo hi (columns df) (rows df ! i) = [(lo, v1), (hi, v2)] \<and>
          v1 \<noteq> NaN \<and> v2 \<noteq> NaN \<longrightarrow>
          vs ! i = fdiv (fadd v1 v2) (Fin False 2)))"
proof -
  from assms(2) have "''average'' = ''centerband'' \<or> (''average'' = ''average'' \<and> s \<noteq> ''sentinel-2'')"
    by simp
  from init_succeeds [OF assms(1) this] obtain obj where
    i: "init s ''average'' = Inr obj" and bo: "bands obj = bs" by blast
  from assms(3) bo have look: "map_of (bands obj) b = Some w" by simp
  from init_average [OF i look] obtain lo hi where
    m: "method' obj = Average" and w: "w = Tup lo hi" by blast
  define vs where
    "vs = map (\<lambda>row. nanmean (map snd (in_range lo hi (columns df) row))) (rows df)"
  have g: "get_band_values obj df b = Inr vs"
    using m w look by (simp add: get_band_values_def select_mask in_range_def vs_def)
  have len: "length vs = length (rows df)" by (simp add: vs_def)
  have nth: "vs ! i = nanmean (map snd (in_range lo hi (columns df) (rows df ! i)))"
    if "i < length (rows df)" for i
    using that by (simp add: vs_def)
  have "\<forall>i. i < length (rows df) \<longrightarrow>
       (in_range lo hi (columns df) (rows df ! i) \<noteq> [] \<and>
        NaN \<notin> set (map snd (in_range lo hi (columns df) (rows df ! i))) \<longrightarrow>
          vs ! i = arithmetic_mean (map snd (in_range lo hi (columns df) (rows df ! i)))) \<and>
       (\<forall>v1 v2. in_range lo hi (columns df) (rows df ! i) = [(lo, v1), (hi, v2)] \<and>
          v1 \<noteq> NaN \<and> v2 \<noteq> NaN \<longrightarrow>
          vs ! i = fdiv (fadd v1 v2) (Fin False 2))"
  proof (intro allI impI conjI)
    fix i assume "i < length (rows df)"
    then have n: "vs ! i = nanmean (map snd (in_range lo hi (columns df) (rows df ! i)))"
      by (rule nth)
    {
      assume "in_range lo hi (columns df) (rows df ! i) \<noteq> [] \<and>
        NaN \<notin> set (map snd (in_range lo hi (columns df) (rows df ! i)))"
      then show "vs ! i = arithmetic_mean (map snd (in_range lo hi (columns df) (rows df ! i)))"
        using nanmean_numbers [of "map snd (in_range lo hi (columns df) (rows df ! i))"] n
        by simp
    }
    fix v1 v2
    assume "in_range lo hi (columns df) (rows df ! i) = [(lo, v1), (hi, v2)] \<and>
          v1 \<noteq> NaN \<and> v2 \<noteq> NaN"
    then show "vs ! i = fdiv (fadd v1 v2) (Fin False 2)"
      using nanmean_pair [of v1 v2] n by simp
  qed
  with i w g len show ?thesis by blast
qed

text \<open>
  Claim C4, amended. Under the average policy, when no column label lies in the closed
  interval of the band, resolving the band raises nothing: the result is NaN for every row.
\<close>

theorem average_empty:
  assumes "init s ''average'' = Inr obj" and "map_of (bands obj) b = Some (Tup lo hi)"
    and "\<forall>c \<in> set (columns df). \<not> (lo \<le> c \<and> c \<le> hi)"
  shows "get_band_values obj df b = Inr (replicate (length (rows df)) NaN)"
proof -
  from init_average [OF assms(1,2)] have m: "method' obj = Average" by simp
  have "in_range lo hi (columns df) row = []" for row
    using assms(3) by (auto simp: in_range_def filter_empty_conv dest: set_zip_leftD)
  then have "get_band_values obj df b = Inr (map (\<lambda>row. NaN) (rows df))"
    using m assms(2) by (simp add: get_band_values_def select_mask in_range_def nanmean_Nil)
  then show ?thesis by (simp add: map_replicate_const)
qed

lemma init_general_average: "init ''general'' ''average'' = Inr general_average"
  by (simp add: init_def parse_method_def get_sensor_bands_def sensors_def get_centerband_def
        int_half_def general_average_def)

lemma singleton_list: "length xs = Suc 0 \<Longrightarrow> xs ! 0 = x \<Longrightarrow> xs = [x]"
  by (cases xs) simp_all

lemma mean_2_4: "fdiv (fadd (Fin False 2) (Fin False 4)) (Fin False 2) = Fin False 3"
  by (simp add: signed_def round_to_nums)

theorem average_mean_witness:
  "get_band_values general_average demo_df ''red'' = Inr [Fin False 3] \<and>
   arithmetic_mean [Fin False 2, Fin False 4] = Fin False 3"
proof -
  let ?row = "[Fin False 1, Fin False 2, Fin False 4, Fin False 8]"
  have g: "get_sensor_bands ''general'' =
      Some [(''blue'', Tup 450 520), (''green'', Tup 521 600), (''red'', Tup 601 690),
            (''nir'', Tup 700 800)]"
    by (simp add: get_sensor_bands_def sensors_def)
  have b: "map_of [(''blue'', Tup 450 520), (''green'', Tup 521 600), (''red'', Tup 601 690),
            (''nir'', Tup 700 800)] ''red'' = Some (Tup 601 690)"
    by simp
  have cells: "in_range 601 690 (columns demo_df) ?row = [(601, Fin False 2), (690, Fin False 4)]"
    by (simp add: demo_df_def in_range_def)
  have rows: "rows demo_df = [?row]" by (simp add: demo_df_def)
  from average_mean [OF g _ b, of demo_df] obtain obj lo hi vs where
    i: "init ''general'' ''average'' = Inr obj" and w: "Tup 601 690 = Tup lo hi" and
    r: "get_band_values obj demo_df ''red'' = Inr vs" and len: "length vs = length (rows demo_df)" and
    a: "\<forall>i. i < length (rows demo_df) \<longrightarrow>
       (in_range lo hi (columns demo_df) (rows demo_df ! i) \<noteq> [] \<and>
        NaN \<notin> set (map snd (in_range lo hi (columns demo_df) (rows demo_df ! i))) \<longrightarrow>
          vs ! i = arithmetic_mean (map snd (in_range lo hi (columns demo_df) (rows demo_df ! i)))) \<and>
       (\<forall>v1 v2. in_range lo hi (columns demo_df) (rows demo_df ! i) = [(lo, v1), (hi, v2)] \<and>
          v1 \<noteq> NaN \<and> v2 \<noteq> NaN \<longrightarrow>
          vs ! i = fdiv (fadd v1 v2) (Fin False 2))"
    by auto
  from i init_general_average have obj: "obj = general_average" by simp
  from w have lo: "lo = 601" and hi: "hi = 690" by simp_all
  from a [rule_format, of 0] have both:
    "vs ! 0 = arithmetic_mean [Fin False 2, Fin False 4] \<and>
     vs ! 0 = fdiv (fadd (Fin False 2) (Fin False 4)) (Fin False 2)"
    by (simp add: lo hi rows cells del: fadd.simps fdiv.simps) metis
  from both have 1: "vs ! 0 = arithmetic_mean [Fin False 2, Fin False 4]" ..
  from both have 2: "vs ! 0 = fdiv (fadd (Fin False 2) (Fin False 4)) (Fin False 2)" ..
  from 2 have 3: "vs ! 0 = Fin False 3" by (simp only: mean_2_4)
  from len have "length vs = Suc 0" by (simp add: rows)
  from singleton_list [OF this 3] r obj 1 3 show ?thesis by simp
qed

text \<open>
  Claim C1 as stated gives \<open>(v1 + v2) / 2\<close> for any values. For the red band of the general
  sensor and a row with NaN at 601 and 4 at 690 the mean skips the NaN cell and the result
  is 4, where \<open>(v1 + v2) / 2\<close> and the arithmetic mean of the two cells are NaN.
\<close>

theorem average_nan_counterexample:
  "init ''general'' ''average'' = Inr general_average \<and>
   in_range 601 690 (columns nan_df) [Fin False 1, NaN, Fin False 4, Fin False 8] =
     [(601, NaN), (690, Fin False 4)] \<and>
   get_band_values general_average nan_df ''red'' = Inr [Fin False 4] \<and>
   fdiv (fadd NaN (Fin False 4)) (Fin False 2) = NaN \<and>
   arithmetic_mean [NaN, Fin False 4] = NaN"
  by (simp add: init_general_average nan_df_def in_range_def general_average_def
        get_band_values_def select_def nanmean_def arithmetic_mean_def signed_def round_to_nums)

theorem average_empty_witness:
  "get_band_values general_average demo_df ''blue'' = Inr (replicate (length (rows demo_df)) NaN)"
proof -
  have b: "map_of (bands general_average) ''blue'' = Some (Tup 450 520)"
    by (simp add: general_average_def)
  have c: "\<forall>c \<in> set (columns demo_df). \<not> (450 \<le> c \<and> c \<le> 520)"
    by (simp add: demo_df_def)
  from average_empty [OF init_general_average b c] show ?thesis .
qed

text \<open>
  Claim C4 as stated asks for an error. The blue band of the general sensor has no column
  in the example table, and the result is a NaN, not an exception.
\<close>

theorem average_empty_counterexample:
  "\<not> (\<exists>c \<in> set (columns demo_df). 450 \<le> c \<and> c \<le> 520) \<and>
   get_band_values general_average demo_df ''blue'' = Inr [NaN]"
  by (simp add: demo_df_def general_average_def get_band_values_def select_def nanmean_def)

lemma fadd_NaN_right: "fadd x NaN = NaN"
  by (cases x) simp_all

lemma fsub_NaN_right: "fsub x NaN = NaN"
  by (simp add: fsub_def fadd_NaN_right)

lemma fsqrt_negative: "is_negative x \<Longrightarrow> fsqrt x = NaN"
  by (cases x) (auto simp: is_negative_def)

lemma literal_1: "literal 1 = Fin False 1"
  using round_mag_1 by (simp add: literal_def round_to_def)

lemma msavi_negative: "is_negative (radicand nir red) \<Longrightarrow> msavi_value nir red = NaN"
  unfolding msavi_value_def radicand_def [symmetric]
  by (simp add: fsqrt_negative fsub_NaN_right)

lemma gci_zero: "gci_value nir (Fin s 0) \<in> {Infty False, Infty True, NaN}"
  by (cases nir) (auto simp: gci_value_def literal_1 fsub_def)

text \<open>
  Claim C7. MSAVI with a radicand below zero is NaN; GCI with a green of zero (plus or
  minus) is an infinity or NaN; and once their bands are resolved, \<open>msavi\<close> and \<open>gci\<close>
  return a value for every row: the arithmetic raises nothing.
\<close>

theorem index_edge_cases:
  "(is_negative (radicand nir red) \<longrightarrow> msavi_value nir red = NaN) \<and>
   gci_value nir (Fin s 0) \<in> {Infty False, Infty True, NaN} \<and>
   (get_band_values obj df ''nir'' = Inr ns \<and> get_band_values obj df ''red'' = Inr rs \<longrightarrow>
      msavi obj df = Inr (map2 msavi_value ns rs)) \<and>
   (get_band_values obj df ''nir'' = Inr ns \<and> get_band_values obj df ''green'' = Inr gs \<longrightarrow>
      gci obj df = Inr (map2 gci_value ns gs))"
  using msavi_negative [of nir red] gci_zero [of nir s] by (simp add: msavi_def gci_def)


lemma radicand_demo: "radicand (Fin False 1) (Fin True 10) = Fin True 79"
  by (simp add: radicand_def literal_def round_to_nums literal_1 fsub_def signed_def)

lemma series_demo:
  "get_band_values general_average demo_df ''nir'' = Inr [NaN]"
  "get_band_values general_average demo_df ''red'' =
     Inr [fdiv (fadd (Fin False 2) (Fin False 4)) (Fin False 2)]"
  "get_band_values general_average demo_df ''green'' = Inr [Fin False 1]"
  by (simp_all add: demo_df_def general_average_def get_band_values_def select_def nanmean_def
        round_to_nums)

theorem index_edge_cases_witness:
  "msavi_value (Fin False 1) (Fin True 10) = NaN \<and>
   gci_value (Fin False 1) (Fin False 0) \<in> {Infty False, Infty True, NaN} \<and>
   msavi general_average demo_df =
     Inr (map2 msavi_value [NaN] [fdiv (fadd (Fin False 2) (Fin False 4)) (Fin False 2)]) \<and>
   gci general_average demo_df = Inr (map2 gci_value [NaN] [Fin False 1])"
proof -
  have n: "is_negative (radicand (Fin False 1) (Fin True 10))"
    by (simp add: radicand_demo is_negative_def)
  from index_edge_cases [of "Fin False 1" "Fin True 10" False general_average demo_df
      "[NaN]" "[fdiv (fadd (Fin False 2) (Fin False 4)) (Fin False 2)]" "[Fin False 1]"]
    n series_demo
  show ?thesis by simp
qed

end
